(* ===== verification/Gw_Prelude.thy ===== *)
theory Gw_Prelude
  imports Main "HOL-Library.Word"
begin

section \<open>Prelude: machine types, C strings, shared automation\<close>

text \<open>
  What every component of the gateway shares: names for the machine integers of the target
  (the i.MX6ULL is a 32-bit ARM, so \<^verbatim>\<open>int\<close> and \<^verbatim>\<open>long\<close> are 32 bits wide), the decimal and
  hexadecimal conversions of \<^verbatim>\<open>printf\<close>, the part of the C string library the sources call
  (\<^verbatim>\<open>isspace\<close>, \<^verbatim>\<open>strtol\<close>, \<^verbatim>\<open>atoi\<close>, \<^verbatim>\<open>snprintf\<close> with a bounded buffer), and the lemma
  collections that the component theories extend.

  Signed \<^verbatim>\<open>int\<close> variables are modelled as \<^typ>\<open>int\<close>; where the width is observable the value is
  clamped or wrapped explicitly. Unsigned variables are words.
\<close>

named_theorems start_simps \<open>unfolding an initial state\<close>

type_synonym u8 = "8 word"
type_synonym u16 = "16 word"
type_synonym u32 = "32 word"

text \<open>\<^verbatim>\<open>unsigned long\<close> of the ILP32 target.\<close>
type_synonym ulong = "32 word"

abbreviation INT_MAX :: int where "INT_MAX \<equiv> 2147483647"
abbreviation INT_MIN :: int where "INT_MIN \<equiv> - 2147483648"

definition is_c_int :: "int \<Rightarrow> bool" where
  "is_c_int i \<longleftrightarrow> INT_MIN \<le> i \<and> i \<le> INT_MAX"

text \<open>Division and remainder of C: the quotient is truncated towards zero.\<close>

definition c_div :: "int \<Rightarrow> int \<Rightarrow> int" where
  "c_div a b = sgn a * sgn b * (\<bar>a\<bar> div \<bar>b\<bar>)"

definition c_mod :: "int \<Rightarrow> int \<Rightarrow> int" where
  "c_mod a b = a - b * c_div a b"

lemma c_div_nonneg: "0 \<le> a \<Longrightarrow> 0 < b \<Longrightarrow> c_div a b = a div b"
  by (cases "a = 0") (simp_all add: c_div_def)

lemma c_mod_nonneg: "0 \<le> a \<Longrightarrow> 0 < b \<Longrightarrow> c_mod a b = a mod b"
  by (simp add: c_mod_def c_div_nonneg minus_mult_div_eq_mod)

subsection \<open>Numbers as text: \<^verbatim>\<open>%d\<close>, \<^verbatim>\<open>%u\<close>, \<^verbatim>\<open>%X\<close>\<close>

definition dec_digit :: "nat \<Rightarrow> char" where
  "dec_digit n = char_of (48 + n)"

fun fmt_nat :: "nat \<Rightarrow> string" where
  "fmt_nat n = (if n < 10 then [dec_digit n] else fmt_nat (n div 10) @ [dec_digit (n mod 10)])"

declare fmt_nat.simps [simp del]

definition fmt_int :: "int \<Rightarrow> string" where
  "fmt_int i = (if i < 0 then CHR ''-'' # fmt_nat (nat (- i)) else fmt_nat (nat i))"

definition hex_digit :: "nat \<Rightarrow> char" where
  "hex_digit n = (if n < 10 then char_of (48 + n) else char_of (55 + n))"

fun fmt_hex :: "nat \<Rightarrow> string" where
  "fmt_hex n = (if n < 16 then [hex_digit n] else fmt_hex (n div 16) @ [hex_digit (n mod 16)])"

declare fmt_hex.simps [simp del]

text \<open>\<^verbatim>\<open>%02X\<close> of a byte.\<close>
definition fmt_02X :: "u8 \<Rightarrow> string" where
  "fmt_02X b = [hex_digit (unat b div 16), hex_digit (unat b mod 16)]"

lemma length_fmt_02X [simp]: "length (fmt_02X b) = 2"
  by (simp add: fmt_02X_def)

subsection \<open>The C string library\<close>

definition isspace :: "char \<Rightarrow> bool" where
  "isspace c \<longleftrightarrow> (let n = (of_char c :: nat) in n = 32 \<or> (9 \<le> n \<and> n \<le> 13))"

definition isdigit :: "char \<Rightarrow> bool" where
  "isdigit c \<longleftrightarrow> (let n = (of_char c :: nat) in 48 \<le> n \<and> n \<le> 57)"

definition digit_val :: "char \<Rightarrow> nat" where
  "digit_val c = (of_char c :: nat) - 48"

text \<open>The C string held by a buffer: what precedes the first NUL byte.\<close>
definition cstr :: "string \<Rightarrow> string" where
  "cstr s = takeWhile (\<lambda>c. c \<noteq> CHR 0x00) s"

text \<open>
  \<^verbatim>\<open>snprintf(dst, n, ...)\<close> with the formatted text \<open>s\<close>: the C string that ends up in
  \<open>dst\<close> (\<open>n\<close> is positive at every call) and the returned length.
\<close>
definition snprintf :: "nat \<Rightarrow> string \<Rightarrow> string \<times> int" where
  "snprintf n s = (take (n - 1) s, int (length s))"

text \<open>\<^verbatim>\<open>strtol(s, &end, 10)\<close>: the clamped value and the unread rest; \<open>None\<close> when no digit is read.\<close>

fun scan_digits :: "nat \<Rightarrow> string \<Rightarrow> nat \<times> string" where
  "scan_digits acc [] = (acc, [])"
| "scan_digits acc (c # cs) =
     (if isdigit c then scan_digits (10 * acc + digit_val c) cs else (acc, c # cs))"

definition clamp_long :: "int \<Rightarrow> int" where
  "clamp_long i = max INT_MIN (min INT_MAX i)"

definition scan_sign :: "string \<Rightarrow> bool \<times> string" where
  "scan_sign s = (case s of [] \<Rightarrow> (False, [])
     | c # cs \<Rightarrow> if c = CHR ''-'' then (True, cs)
                 else if c = CHR ''+'' then (False, cs) else (False, c # cs))"

definition strtol10 :: "string \<Rightarrow> (int \<times> string) option" where
  "strtol10 s =
     (case scan_sign (dropWhile isspace s) of (neg, ds) \<Rightarrow>
        if ds = [] \<or> \<not> isdigit (hd ds) then None
        else (case scan_digits 0 ds of (n, rest) \<Rightarrow>
                Some (clamp_long (if neg then - int n else int n), rest)))"

text \<open>\<^verbatim>\<open>atoi\<close> of glibc is \<^verbatim>\<open>(int)strtol(s, NULL, 10)\<close>, which gives 0 when there is no number.\<close>
definition atoi :: "string \<Rightarrow> int" where
  "atoi s = (case strtol10 s of None \<Rightarrow> 0 | Some (v, _) \<Rightarrow> v)"

subsection \<open>Lemmas on text\<close>

lemma dec_digit_isdigit [simp]: "n < 10 \<Longrightarrow> isdigit (dec_digit n)"
  by (simp add: isdigit_def dec_digit_def Let_def)

lemma digit_val_dec_digit [simp]: "n < 10 \<Longrightarrow> digit_val (dec_digit n) = n"
  by (simp add: digit_val_def dec_digit_def)

lemma isdigit_not_space: "isdigit c \<Longrightarrow> \<not> isspace c"
  by (auto simp: isdigit_def isspace_def Let_def)

lemma isdigit_not_sign: "isdigit c \<Longrightarrow> c \<noteq> CHR ''-'' \<and> c \<noteq> CHR ''+''"
  by (auto simp: isdigit_def Let_def)

lemma isdigit_not_nul: "isdigit c \<Longrightarrow> c \<noteq> CHR 0x00"
  by (auto simp: isdigit_def Let_def)

lemma fmt_nat_digits: "\<forall>c \<in> set (fmt_nat n). isdigit c"
proof (induction n rule: fmt_nat.induct)
  case (1 n)
  then show ?case by (subst fmt_nat.simps) auto
qed

lemma fmt_nat_neq_Nil [simp]: "fmt_nat n \<noteq> []"
  by (subst fmt_nat.simps) simp

lemma scan_digits_append_digits:
  "\<forall>c \<in> set ds. isdigit c \<Longrightarrow> scan_digits acc (ds @ rest) = scan_digits (fst (scan_digits acc ds)) rest"
  by (induction ds arbitrary: acc) auto

lemma scan_digits_snoc:
  "\<forall>c \<in> set ds. isdigit c \<Longrightarrow> isdigit c \<Longrightarrow>
     fst (scan_digits acc (ds @ [c])) = 10 * fst (scan_digits acc ds) + digit_val c"
  by (simp add: scan_digits_append_digits)

lemma scan_digits_fmt_nat: "fst (scan_digits 0 (fmt_nat n)) = n"
proof (induction n rule: fmt_nat.induct)
  case (1 n)
  show ?case
  proof (cases "n < 10")
    case True
    then show ?thesis by (simp add: fmt_nat.simps [of n])
  next
    case False
    with 1 show ?thesis
      by (simp add: fmt_nat.simps [of n] scan_digits_snoc fmt_nat_digits)
  qed
qed

lemma length_fmt_nat_le: "n < 10 ^ k \<Longrightarrow> 0 < k \<Longrightarrow> length (fmt_nat n) \<le> k"
proof (induction k arbitrary: n)
  case 0
  then show ?case by simp
next
  case (Suc k)
  show ?case
  proof (cases "n < 10")
    case True
    then show ?thesis by (simp add: fmt_nat.simps [of n])
  next
    case False
    with Suc.prems have k: "0 < k" by (cases k) auto
    have "n div 10 < 10 ^ k" using Suc.prems(1) by (simp add: less_mult_imp_div_less)
    from Suc.IH [OF this k] show ?thesis using False by (simp add: fmt_nat.simps [of n])
  qed
qed

text \<open>Reading back what \<^verbatim>\<open>%d\<close> printed gives the number, for every \<^verbatim>\<open>int\<close>.\<close>

lemma hd_fmt_nat_isdigit: "isdigit (hd (fmt_nat n))"
  using fmt_nat_digits [of n] by (cases "fmt_nat n") auto

lemma dropWhile_isspace_fmt_int: "dropWhile isspace (fmt_int i @ r) = fmt_int i @ r"
proof (cases "i < 0")
  case True
  then show ?thesis by (simp add: fmt_int_def isspace_def)
next
  case False
  then show ?thesis
    using hd_fmt_nat_isdigit [of "nat i"]
    by (cases "fmt_nat (nat i)") (auto simp: fmt_int_def isdigit_not_space)
qed

lemma scan_sign_fmt_int:
  "scan_sign (fmt_int i @ r) = (i < 0, fmt_nat (nat \<bar>i\<bar>) @ r)"
proof (cases "i < 0")
  case True
  then show ?thesis by (simp add: fmt_int_def scan_sign_def)
next
  case False
  then show ?thesis
    using hd_fmt_nat_isdigit [of "nat i"]
    by (cases "fmt_nat (nat i)") (auto simp: fmt_int_def scan_sign_def isdigit_not_sign)
qed

lemma scan_digits_stop:
  "r = [] \<or> \<not> isdigit (hd r) \<Longrightarrow> scan_digits n r = (n, r)"
  by (cases r) auto

lemma strtol10_fmt_int:
  assumes "is_c_int i" and "r = [] \<or> \<not> isdigit (hd r)"
  shows "strtol10 (fmt_int i @ r) = Some (i, r)"
proof -
  have d: "scan_digits 0 (fmt_nat (nat \<bar>i\<bar>) @ r) = (nat \<bar>i\<bar>, r)"
    using assms(2)
    by (simp add: scan_digits_append_digits fmt_nat_digits scan_digits_fmt_nat scan_digits_stop)
  have h: "isdigit (hd (fmt_nat (nat \<bar>i\<bar>) @ r))"
    by (simp add: hd_fmt_nat_isdigit)
  have "clamp_long i = i" using assms(1) by (simp add: clamp_long_def is_c_int_def)
  then show ?thesis
    using d h unfolding strtol10_def dropWhile_isspace_fmt_int scan_sign_fmt_int
    by (auto simp: abs_if)
qed

lemma atoi_fmt_int: "is_c_int i \<Longrightarrow> atoi (fmt_int i) = i"
  using strtol10_fmt_int [of i "[]"] by (simp add: atoi_def)

subsection \<open>Circular index arithmetic\<close>

lemma ring_index_inj_le:
  assumes "(t + i) mod n = (t + j) mod n" and "i \<le> j" and "j < (n::nat)"
  shows "i = j"
proof -
  have "n dvd j - i"
    using assms(1,2) mod_eq_dvd_iff_nat [of "t + i" "t + j" n] by simp
  moreover have "j - i < n" using assms(3) by simp
  ultimately have "j - i = 0" by (metis dvd_imp_le not_le neq0_conv)
  with assms(2) show ?thesis by simp
qed

lemma ring_index_inj:
  "(t + i) mod n = (t + j) mod n \<Longrightarrow> i < n \<Longrightarrow> j < (n::nat) \<Longrightarrow> i = j"
  by (metis ring_index_inj_le nat_le_linear)

end
