(* ===== verification/Serial_Port.thy ===== *)
theory Serial_Port
  imports Gw_Prelude "HOL-Library.Sublist"
begin

section \<open>The serial port (\<^verbatim>\<open>app/src/serial_port.c\<close>)\<close>

text \<open>
  The POSIX build of the serial module: opening and configuring the port, the write loop over
  partial writes, and the read with a timeout. The kernel is a parameter: the outcome of every
  system call is an argument, a list of outcomes where the code calls in a loop. The stubs of
  the Windows build are not modelled.
\<close>

unbundle bit_operations_syntax

subsection \<open>Sending a buffer in pieces: the interface\<close>

text \<open>The outcome of one \<^verbatim>\<open>write\<close> or \<^verbatim>\<open>send\<close>: bytes accepted, interrupted, or another error.\<close>
datatype sys_ret = Ret nat | Eintr | Err

text \<open>
  A sink runs over a list of outcomes and gives its result with the bytes that went out, or
  \<open>None\<close> while it still needs another outcome. What clients use: the bytes sent are always a
  prefix of the buffer, and all of it when the result says so.
\<close>
locale byte_sink =
  fixes send_all :: "'b list \<Rightarrow> sys_ret list \<Rightarrow> ('r \<times> 'b list) option"
    and success :: "'b list \<Rightarrow> 'r \<Rightarrow> bool"
  assumes sent_prefix: "send_all buf outs = Some (r, sent) \<Longrightarrow> prefix sent buf"
    and sent_all: "send_all buf outs = Some (r, sent) \<Longrightarrow> success buf r \<Longrightarrow> sent = buf"
begin

text \<open>Several messages one after the other, stopping at the first that fails.\<close>
fun send_seq :: "('b list \<times> sys_ret list) list \<Rightarrow> nat \<times> 'b list" where
  "send_seq [] = (0, [])"
| "send_seq ((m, outs) # ms) =
     (case send_all m outs of None \<Rightarrow> (0, [])
      | Some (r, sent) \<Rightarrow>
          if success m r then (case send_seq ms of (k, rest) \<Rightarrow> (Suc k, sent @ rest))
          else (0, sent))"

text \<open>The stream holds the first \<open>k\<close> messages whole, then at most a prefix of the next one.\<close>
lemma send_seq_stream:
  "send_seq ms = (k, stream) \<Longrightarrow>
     \<exists>part. stream = concat (map fst (take k ms)) @ part \<and>
       (if k < length ms then prefix part (fst (ms ! k)) else part = [])"
proof (induction ms arbitrary: k stream)
  case (Cons a ms)
  obtain m outs where a: "a = (m, outs)" by (cases a)
  show ?case
  proof (cases "send_all m outs")
    case None
    with Cons.prems a show ?thesis by simp
  next
    case (Some p)
    obtain r sent where p: "p = (r, sent)" by (cases p)
    show ?thesis
    proof (cases "success m r")
      case True
      obtain k' rest where rec: "send_seq ms = (k', rest)" by (cases "send_seq ms")
      have "sent = m" using sent_all Some p True by blast
      with Cons.IH [OF rec] Cons.prems a Some p True rec show ?thesis by auto
    next
      case False
      with Cons.prems a Some p sent_prefix show ?thesis by auto
    qed
  qed
qed simp

end

subsection \<open>Baud rates and line settings\<close>

record termios =
  c_iflag :: u32
  c_oflag :: u32
  c_cflag :: u32
  c_lflag :: u32
  c_vmin :: u8
  c_vtime :: u8
  c_ispeed :: u32
  c_ospeed :: u32

definition CSIZE :: u32 where "CSIZE = 0x30"
definition CS8 :: u32 where "CS8 = 0x30"
definition CSTOPB :: u32 where "CSTOPB = 0x40"
definition CREAD :: u32 where "CREAD = 0x80"
definition PARENB :: u32 where "PARENB = 0x100"
definition CLOCAL :: u32 where "CLOCAL = 0x800"
definition CRTSCTS :: u32 where "CRTSCTS = 0x80000000"

lemmas cflag_defs = CSIZE_def CS8_def CSTOPB_def CREAD_def PARENB_def CLOCAL_def CRTSCTS_def

text \<open>\<^verbatim>\<open>serial_baudrate_to_flag\<close>: the return code and the \<^verbatim>\<open>speed_t\<close> stored.\<close>
definition serial_baudrate_to_flag :: "int \<Rightarrow> u32 option \<Rightarrow> int \<times> u32 option" where
  "serial_baudrate_to_flag baudrate speed =
     (case speed of None \<Rightarrow> (-1, None)
      | Some _ \<Rightarrow>
          if baudrate = 9600 then (0, Some 13)
          else if baudrate = 19200 then (0, Some 14)
          else if baudrate = 38400 then (0, Some 15)
          else if baudrate = 57600 then (0, Some 0x1001)
          else if baudrate = 115200 then (0, Some 0x1002)
          else (-1, speed))"

text \<open>\<^verbatim>\<open>cfmakeraw\<close> of the C library.\<close>
definition cfmakeraw :: "termios \<Rightarrow> termios" where
  "cfmakeraw t = t\<lparr>c_iflag := c_iflag t AND NOT 0x5EB, c_oflag := c_oflag t AND NOT 1,
     c_lflag := c_lflag t AND NOT 0x804B, c_cflag := c_cflag t AND NOT (CSIZE OR PARENB) OR CS8,
     c_vmin := 1, c_vtime := 0\<rparr>"

text \<open>Outcomes of the calls on one descriptor: each boolean says that the call succeeds.\<close>
record port_env =
  tcgetattr_ok :: bool
  cfsetspeed_ok :: bool
  tcsetattr_ok :: bool
  fcntl_ok :: bool

text \<open>\<^verbatim>\<open>serial_configure\<close> on a descriptor whose present settings are \<open>t\<close>.\<close>
definition serial_configure :: "port_env \<Rightarrow> termios \<Rightarrow> int \<Rightarrow> int \<times> termios" where
  "serial_configure env t baudrate =
     (case serial_baudrate_to_flag baudrate (Some 0) of (rc, speed) \<Rightarrow>
        if rc \<noteq> 0 then (-1, t)
        else if \<not> tcgetattr_ok env then (-1, t)
        else
          (let o1 = cfmakeraw t
           in if \<not> cfsetspeed_ok env then (-1, t)
              else
                (let o2 = o1\<lparr>c_ispeed := the speed, c_ospeed := the speed\<rparr>;
                     o3 = o2\<lparr>c_cflag := c_cflag o2 OR (CLOCAL OR CREAD)\<rparr>;
                     o4 = o3\<lparr>c_cflag := c_cflag o3 AND NOT CSIZE\<rparr>;
                     o5 = o4\<lparr>c_cflag := c_cflag o4 OR CS8\<rparr>;
                     o6 = o5\<lparr>c_cflag := c_cflag o5 AND NOT PARENB\<rparr>;
                     o7 = o6\<lparr>c_cflag := c_cflag o6 AND NOT CSTOPB\<rparr>;
                     o8 = o7\<lparr>c_cflag := c_cflag o7 AND NOT CRTSCTS\<rparr>;
                     o9 = o8\<lparr>c_vmin := 0, c_vtime := 0\<rparr>
                 in if \<not> tcsetattr_ok env then (-1, t) else (0, o9))))"

text \<open>
  The process's open descriptors and the settings of the port. \<^verbatim>\<open>serial_open\<close> takes what
  \<^verbatim>\<open>open\<close> returned; the result is the return code and the descriptors afterwards.
\<close>
record port_state =
  open_fds :: "int list"
  port_termios :: termios
  port_blocking :: bool

definition close_fd :: "int \<Rightarrow> port_state \<Rightarrow> port_state" where
  "close_fd fd st = st\<lparr>open_fds := remove1 fd (open_fds st)\<rparr>"

definition serial_open ::
    "port_env \<Rightarrow> int \<Rightarrow> string option \<Rightarrow> int \<Rightarrow> port_state \<Rightarrow> int \<times> port_state" where
  "serial_open env fd device baudrate st =
     (case device of None \<Rightarrow> (-1, st)
      | Some _ \<Rightarrow>
          if fd < 0 then (-1, st)
          else
            (let st1 = st\<lparr>open_fds := fd # open_fds st, port_blocking := False\<rparr>
             in (case serial_configure env (port_termios st1) baudrate of (rc, t) \<Rightarrow>
                   let st2 = st1\<lparr>port_termios := t\<rparr>
                   in if rc \<noteq> 0 then (-1, close_fd fd st2)
                      else if \<not> fcntl_ok env then (-1, close_fd fd st2)
                      else (fd, st2\<lparr>port_blocking := True\<rparr>))))"

definition serial_close :: "int \<Rightarrow> port_state \<Rightarrow> int \<times> port_state" where
  "serial_close fd st = (if fd < 0 then (-1, st)
     else if fd \<in> set (open_fds st) then (0, close_fd fd st) else (-1, st))"

subsection \<open>Writing\<close>

text \<open>The loop: bytes still to send, bytes sent so far, outcomes of the coming \<^verbatim>\<open>write\<close> calls.\<close>
fun serial_write_loop :: "u8 list \<Rightarrow> nat \<Rightarrow> sys_ret list \<Rightarrow> (int \<times> u8 list) option" where
  "serial_write_loop buf tot [] =
     (if tot < length buf then None else Some (int tot, take tot buf))"
| "serial_write_loop buf tot (r # rs) =
     (if tot < length buf then
        (case r of
           Eintr \<Rightarrow> serial_write_loop buf tot rs
         | Err \<Rightarrow> Some (-1, take tot buf)
         | Ret n \<Rightarrow> if n = 0 then Some (int tot, take tot buf)
                    else serial_write_loop buf (tot + n) rs)
      else Some (int tot, take tot buf))"

definition serial_write ::
    "int \<Rightarrow> u8 list option \<Rightarrow> int \<Rightarrow> sys_ret list \<Rightarrow> (int \<times> u8 list) option" where
  "serial_write fd buf len outs =
     (case buf of None \<Rightarrow> Some (-1, [])
      | Some b \<Rightarrow> if fd < 0 \<or> len \<le> 0 then Some (-1, [])
                  else serial_write_loop (take (nat len) b) 0 outs)"

lemma serial_write_loop_prefix: "serial_write_loop buf tot outs = Some (r, sent) \<Longrightarrow> prefix sent buf"
  by (induction buf tot outs rule: serial_write_loop.induct)
    (auto split: if_splits sys_ret.splits simp: take_is_prefix)

lemma serial_write_loop_all:
  "serial_write_loop buf tot outs = Some (r, sent) \<Longrightarrow> int (length buf) \<le> r \<Longrightarrow> sent = buf"
  by (induction buf tot outs rule: serial_write_loop.induct)
    (auto split: if_splits sys_ret.splits)

text \<open>What is sent over the file descriptor \<open>0\<close> with the whole buffer as its length.\<close>
definition port_send :: "u8 list \<Rightarrow> sys_ret list \<Rightarrow> (int \<times> u8 list) option" where
  "port_send buf outs = serial_write 0 (Some buf) (int (length buf)) outs"

interpretation port: byte_sink port_send "\<lambda>buf r. r = int (length buf)"
  by unfold_locales
    (auto simp: port_send_def serial_write_def dest: serial_write_loop_prefix serial_write_loop_all
      split: if_splits)

subsection \<open>Reading\<close>

datatype select_ret = Ready | Select_timeout | Select_eintr | Select_err
datatype read_ret = Data "u8 list" | Read_eintr | Read_eagain | Read_err

text \<open>The \<^verbatim>\<open>struct timeval\<close> passed to \<^verbatim>\<open>select\<close>; \<open>None\<close> is the NULL pointer (wait for ever).\<close>
definition select_timeval :: "int \<Rightarrow> (int \<times> int) option" where
  "select_timeval timeout_ms =
     (if timeout_ms \<ge> 0 then Some (c_div timeout_ms 1000, c_mod timeout_ms 1000 * 1000) else None)"

text \<open>The return code and the bytes placed at the start of \<open>buf\<close>.\<close>
definition serial_read ::
    "int \<Rightarrow> u8 list option \<Rightarrow> int \<Rightarrow> select_ret \<Rightarrow> read_ret \<Rightarrow> int \<times> u8 list" where
  "serial_read fd buf len sel rd =
     (if fd < 0 \<or> buf = None \<or> len \<le> 0 then (-1, [])
      else (case sel of
              Select_eintr \<Rightarrow> (0, [])
            | Select_err \<Rightarrow> (-1, [])
            | Select_timeout \<Rightarrow> (0, [])
            | Ready \<Rightarrow> (case rd of
                 Read_eintr \<Rightarrow> (0, []) | Read_eagain \<Rightarrow> (0, []) | Read_err \<Rightarrow> (-1, [])
               | Data bs \<Rightarrow> (int (length bs), bs))))"

lemma line_settings:
  fixes x :: u32
  defines "y \<equiv> (((((x OR (CLOCAL OR CREAD)) AND NOT CSIZE) OR CS8) AND NOT PARENB) AND NOT CSTOPB) AND NOT CRTSCTS"
  shows "y AND CSIZE = CS8" "y AND PARENB = 0" "y AND CSTOPB = 0" "y AND CRTSCTS = 0"
    "y AND CREAD = CREAD" "y AND CLOCAL = CLOCAL"
  unfolding y_def by (simp_all add: cflag_defs bit.conj_disj_distrib2 and.assoc)

lemma baudrate_ok_iff:
  "fst (serial_baudrate_to_flag b (Some 0)) = 0 \<longleftrightarrow> b \<in> {9600, 19200, 38400, 57600, 115200}"
  by (simp add: serial_baudrate_to_flag_def)

lemma serial_configure_cases:
  "serial_configure env t b = (rc, t') \<Longrightarrow>
     (rc = 0 \<longleftrightarrow> b \<in> {9600, 19200, 38400, 57600, 115200} \<and> tcgetattr_ok env \<and> cfsetspeed_ok env \<and> tcsetattr_ok env)
     \<and> (rc = 0 \<longrightarrow>
         c_cflag t' = (((((c_cflag (cfmakeraw t) OR (CLOCAL OR CREAD)) AND NOT CSIZE) OR CS8)
             AND NOT PARENB) AND NOT CSTOPB) AND NOT CRTSCTS
         \<and> c_vmin t' = 0 \<and> c_vtime t' = 0 \<and> c_ospeed t' = c_ispeed t'
         \<and> c_ispeed t' = the (snd (serial_baudrate_to_flag b (Some 0))))"
  using baudrate_ok_iff [of b]
  by (auto simp: serial_configure_def Let_def split: prod.splits if_splits)

lemma baudrate_flag_Some: "\<exists>v. snd (serial_baudrate_to_flag b (Some 0)) = Some v"
  by (simp add: serial_baudrate_to_flag_def)

text \<open>
  Opening the port: it succeeds exactly for a non-NULL device, a valid descriptor, one
  of the five supported rates and no failing call; then the line is raw 8N1 without hardware
  flow control at that rate in both directions, reads do not block on a minimum count, and the
  descriptor is open in blocking mode. Every failure closes the descriptor again.
\<close>
theorem serial_open_correct:
  assumes "serial_open env fd dev baud st = (rc, st')"
  shows "(rc = fd \<and> 0 \<le> rc \<longleftrightarrow> dev \<noteq> None \<and> 0 \<le> fd \<and> baud \<in> {9600, 19200, 38400, 57600, 115200}
        \<and> tcgetattr_ok env \<and> cfsetspeed_ok env \<and> tcsetattr_ok env \<and> fcntl_ok env)
    \<and> (if 0 \<le> rc then open_fds st' = fd # open_fds st \<and> port_blocking st'
         \<and> c_cflag (port_termios st') AND CSIZE = CS8 \<and> c_cflag (port_termios st') AND PARENB = 0
         \<and> c_cflag (port_termios st') AND CSTOPB = 0 \<and> c_cflag (port_termios st') AND CRTSCTS = 0
         \<and> c_cflag (port_termios st') AND CREAD = CREAD \<and> c_cflag (port_termios st') AND CLOCAL = CLOCAL
         \<and> c_vmin (port_termios st') = 0 \<and> c_vtime (port_termios st') = 0
         \<and> Some (c_ispeed (port_termios st')) = snd (serial_baudrate_to_flag baud (Some 0))
         \<and> c_ospeed (port_termios st') = c_ispeed (port_termios st')
       else rc = -1 \<and> open_fds st' = open_fds st)"
proof -
  obtain rc1 t1 where c: "serial_configure env (port_termios st) baud = (rc1, t1)" by fastforce
  from assms c have st: "st' = st \<and> (dev = None \<or> fd < 0) \<and> rc = -1
      \<or> (dev \<noteq> None \<and> 0 \<le> fd \<and> (if rc1 = 0 \<and> fcntl_ok env
          then rc = fd \<and> open_fds st' = fd # open_fds st \<and> port_blocking st' \<and> port_termios st' = t1
          else rc = -1 \<and> open_fds st' = open_fds st))"
    by (auto simp: serial_open_def close_fd_def Let_def split: option.splits if_splits)
  note k = serial_configure_cases [OF c]
  show ?thesis
  proof (cases "dev \<noteq> None \<and> 0 \<le> fd \<and> rc1 = 0 \<and> fcntl_ok env")
    case True
    with st have 1: "rc = fd" "0 \<le> fd" "open_fds st' = fd # open_fds st" "port_blocking st'"
      "port_termios st' = t1" "dev \<noteq> None" "fcntl_ok env" by (auto split: if_splits)
    obtain v where v: "snd (serial_baudrate_to_flag baud (Some 0)) = Some v"
      using baudrate_flag_Some by blast
    from True k have 2: "baud \<in> {9600, 19200, 38400, 57600, 115200}" "tcgetattr_ok env"
      "cfsetspeed_ok env" "tcsetattr_ok env" by blast+
    from True k v 1 show ?thesis by (simp only: 2 line_settings option.sel) simp
  next
    case False
    with st have "rc = -1" "open_fds st' = open_fds st" by (auto split: if_splits)
    with False k show ?thesis by (simp del: insert_iff)
  qed
qed

theorem serial_open_correct_witness:
  "\<exists>rc st'. serial_open \<lparr>tcgetattr_ok = True, cfsetspeed_ok = True, tcsetattr_ok = True, fcntl_ok = True\<rparr>
       3 (Some ''/dev/ttymxc2'') 9600
       \<lparr>open_fds = [], port_termios = \<lparr>c_iflag = 0, c_oflag = 0, c_cflag = 0, c_lflag = 0,
          c_vmin = 0, c_vtime = 0, c_ispeed = 0, c_ospeed = 0\<rparr>, port_blocking = False\<rparr> = (rc, st')
     \<and> rc = 3 \<and> open_fds st' = [3]"
proof -
  let ?e = "\<lparr>tcgetattr_ok = True, cfsetspeed_ok = True, tcsetattr_ok = True, fcntl_ok = True\<rparr>"
  let ?s = "\<lparr>open_fds = [], port_termios = \<lparr>c_iflag = 0, c_oflag = 0, c_cflag = 0, c_lflag = 0,
          c_vmin = 0, c_vtime = 0, c_ispeed = 0, c_ospeed = 0\<rparr>, port_blocking = False\<rparr>"
  obtain rc st' where o: "serial_open ?e 3 (Some ''/dev/ttymxc2'') 9600 ?s = (rc, st')" by fastforce
  from serial_open_correct [OF o] have "rc = 3" "open_fds st' = [3]" by simp_all
  with o show ?thesis by blast
qed

text \<open>What the kernel promises of \<^verbatim>\<open>write\<close>: it never accepts more than it was given.\<close>
fun writes_within :: "nat \<Rightarrow> sys_ret list \<Rightarrow> bool" where
  "writes_within n [] = True"
| "writes_within n (Ret k # rs) = (k \<le> n \<and> writes_within (n - k) rs)"
| "writes_within n (_ # rs) = writes_within n rs"

lemma serial_write_loop_correct:
  "serial_write_loop buf tot outs = Some (r, sent) \<Longrightarrow> tot \<le> length buf \<Longrightarrow>
   writes_within (length buf - tot) outs \<Longrightarrow>
     r \<le> int (length buf) \<and> (r = -1 \<or> 0 \<le> r \<and> sent = take (nat r) buf)
     \<and> (r < int (length buf) \<longrightarrow> Err \<in> set outs \<or> Ret 0 \<in> set outs)"
proof (induction buf tot outs rule: serial_write_loop.induct)
  case (2 buf tot x rs)
  then show ?case by (cases x) (auto split: if_splits)
qed (auto split: if_splits)

text \<open>
  Property C38. Writing a frame: whatever the kernel accepts per call and however often the
  call is interrupted, the bytes on the wire are a prefix of the buffer in order, without gap
  or repetition; a non-negative return value is the number of bytes sent, so it equals the
  length only when the whole buffer went out; and it falls short only on a bad argument, a
  call that failed or one that accepted nothing: \<^verbatim>\<open>EINTR\<close> and partial writes are retried.
\<close>
theorem serial_write_correct:
  assumes "serial_write fd (Some b) len outs = Some (r, sent)" and "nat len \<le> length b"
    and "writes_within (nat len) outs"
  shows "prefix sent (take (nat len) b) \<and> (0 \<le> r \<longrightarrow> sent = take (nat r) b \<and> r \<le> len)
    \<and> (0 < len \<and> r < len \<longrightarrow> fd < 0 \<or> Err \<in> set outs \<or> Ret 0 \<in> set outs)"
proof (cases "fd < 0 \<or> len \<le> 0")
  case True
  with assms(1) show ?thesis by (auto simp: serial_write_def)
next
  case False
  with assms(1) have l: "serial_write_loop (take (nat len) b) 0 outs = Some (r, sent)"
    by (simp add: serial_write_def)
  have n: "length (take (nat len) b) = nat len" using assms(2) by simp
  from serial_write_loop_correct [OF l] assms(3) False serial_write_loop_prefix [OF l]
  show ?thesis unfolding n by (auto simp: min_def)
qed

theorem serial_write_correct_witness:
  "serial_write 5 (Some [1, 2, 3]) 3 [Ret 1, Eintr, Ret 2] = Some (3, [1, 2, 3])
   \<and> prefix [1, 2, 3] (take (nat 3) [1, 2, 3 :: u8])"
proof -
  have w: "serial_write 5 (Some [1, 2, 3]) 3 [Ret 1, Eintr, Ret 2] = Some (3, [1, 2, 3])"
    by (simp add: serial_write_def)
  from serial_write_correct [OF this] w show ?thesis by simp
qed

end
