(* ===== verification/Modbus_Rtu.thy ===== *)
theory Modbus_Rtu
  imports Serial_Port
begin

section \<open>The Modbus RTU master (\<^verbatim>\<open>app/src/modbus_rtu.c\<close>)\<close>

text \<open>
  CRC-16, the request frame of function 0x03, the parser of the response, the hexadecimal dump
  and the transaction over the serial port. A C array is a list, a pointer that the code
  compares with NULL an option; output arrays are returned updated.
\<close>

abbreviation MODBUS_FUNC_READ_HOLDING :: u8 where "MODBUS_FUNC_READ_HOLDING \<equiv> 0x03"
abbreviation MODBUS_MAX_REGISTERS :: u16 where "MODBUS_MAX_REGISTERS \<equiv> 125"
abbreviation MODBUS_RESPONSE_MIN :: int where "MODBUS_RESPONSE_MIN \<equiv> 5"

subsection \<open>CRC-16\<close>

definition crc_bit :: "u16 \<Rightarrow> u16" where
  "crc_bit c = (if c AND 1 \<noteq> 0 then drop_bit 1 c XOR 0xA001 else drop_bit 1 c)"

primrec crc_bits :: "nat \<Rightarrow> u16 \<Rightarrow> u16" where
  "crc_bits 0 c = c"
| "crc_bits (Suc n) c = crc_bits n (crc_bit c)"

definition crc_byte :: "u16 \<Rightarrow> u8 \<Rightarrow> u16" where
  "crc_byte c b = crc_bits 8 (c XOR ucast b)"

definition crc_of :: "u8 list \<Rightarrow> u16" where
  "crc_of bs = foldl crc_byte 0xFFFF bs"

definition modbus_crc16 :: "u8 list option \<Rightarrow> int \<Rightarrow> u16" where
  "modbus_crc16 buf len =
     (case buf of None \<Rightarrow> 0
      | Some b \<Rightarrow> if len \<le> 0 then 0 else crc_of (take (nat len) b))"

subsection \<open>Frames\<close>

definition hi8 :: "u16 \<Rightarrow> u8" where "hi8 w = ucast (drop_bit 8 w)"
definition lo8 :: "u16 \<Rightarrow> u8" where "lo8 w = ucast (w AND 0xFF)"
definition be16 :: "u8 \<Rightarrow> u8 \<Rightarrow> u16" where "be16 h l = push_bit 8 (ucast h) OR ucast l"

definition modbus_build_read_request ::
    "u8 \<Rightarrow> u16 \<Rightarrow> u16 \<Rightarrow> u8 list option \<Rightarrow> int \<Rightarrow> int \<times> u8 list option" where
  "modbus_build_read_request slave_addr start_addr quantity buf buf_size =
     (case buf of None \<Rightarrow> (-1, buf)
      | Some b0 \<Rightarrow>
          if buf_size < 8 then (-1, buf)
          else if quantity = 0 \<or> quantity > MODBUS_MAX_REGISTERS then (-1, buf)
          else
            (let b6 = b0[0 := slave_addr, 1 := MODBUS_FUNC_READ_HOLDING,
                         2 := hi8 start_addr, 3 := lo8 start_addr,
                         4 := hi8 quantity, 5 := lo8 quantity];
                 crc = modbus_crc16 (Some b6) 6
             in (8, Some (b6[6 := lo8 crc, 7 := hi8 crc]))))"

text \<open>The loop that unpacks the registers into the output array.\<close>
fun unpack_regs :: "u8 list \<Rightarrow> nat \<Rightarrow> nat \<Rightarrow> u16 list \<Rightarrow> u16 list" where
  "unpack_regs buf i 0 values = values"
| "unpack_regs buf i (Suc n) values =
     unpack_regs buf (Suc i) n (values[i := be16 (buf ! (3 + i * 2)) (buf ! (4 + i * 2))])"

definition modbus_parse_response ::
    "u8 list option \<Rightarrow> int \<Rightarrow> u16 list option \<Rightarrow> int \<Rightarrow> int \<times> u16 list option" where
  "modbus_parse_response buf len values max_values =
     (case (buf, values) of
        (Some b, Some v) \<Rightarrow>
          if max_values \<le> 0 then (-1, values)
          else if len < MODBUS_RESPONSE_MIN then (-1, values)
          else if b ! 1 AND 0x80 \<noteq> 0 then (-1, values)
          else if b ! 1 \<noteq> MODBUS_FUNC_READ_HOLDING then (-1, values)
          else
            (let byte_count = uint (b ! 2)
             in if len \<noteq> byte_count + 5 then (-1, values)
                else
                  (let expected_crc = modbus_crc16 buf (len - 2);
                       crc = be16 (b ! nat (len - 1)) (b ! nat (len - 2))
                   in if crc \<noteq> expected_crc then (-1, values)
                      else
                        (let reg_count = (let n = c_div byte_count 2
                                          in if n > max_values then max_values else n)
                         in (reg_count, Some (unpack_regs b 0 (nat reg_count) v)))))
      | _ \<Rightarrow> (-1, values))"

subsection \<open>Hexadecimal dump\<close>

text \<open>The loop: next index, write position, and the text in \<open>out\<close> so far.\<close>
function hex_dump_loop :: "u8 list \<Rightarrow> int \<Rightarrow> int \<Rightarrow> int \<Rightarrow> int \<Rightarrow> string \<Rightarrow> string \<times> int" where
  "hex_dump_loop buf len out_size i pos out =
     (if i < len \<and> pos < out_size - 4 then
        (case snprintf (nat (out_size - pos))
                ((if i = 0 then '''' else '' '') @ fmt_02X (buf ! nat i)) of
           (txt, n) \<Rightarrow> hex_dump_loop buf len out_size (i + 1) (pos + n) (take (nat pos) out @ txt))
      else (out, pos))"
  by pat_completeness auto
termination
  by (relation "measure (\<lambda>(buf, len, out_size, i, pos, out). nat (len - i))") auto

declare hex_dump_loop.simps [simp del]

definition modbus_hex_dump :: "u8 list option \<Rightarrow> int \<Rightarrow> string option \<Rightarrow> int \<Rightarrow> string option" where
  "modbus_hex_dump buf len out out_size =
     (case (buf, out) of
        (Some b, Some _) \<Rightarrow>
          if out_size \<le> 0 then out else Some (fst (hex_dump_loop b len out_size 0 0 ''''))
      | _ \<Rightarrow> out)"

subsection \<open>One transaction\<close>

text \<open>
  The outcomes the kernel gives to the calls of one transaction, and the result: the return
  code, the output array, what went over the wire and the lines printed on standard output.
\<close>
record bus_env =
  env_writes :: "sys_ret list"
  env_select :: select_ret
  env_read :: read_ret

record bus_result =
  res_code :: int
  res_values :: "u16 list option"
  res_wire :: "u8 list"
  res_stdout :: "string list"

definition modbus_read_registers ::
    "bus_env \<Rightarrow> int \<Rightarrow> u8 \<Rightarrow> u16 \<Rightarrow> u16 \<Rightarrow> u16 list option \<Rightarrow> int \<Rightarrow> int \<Rightarrow> bus_result option" where
  "modbus_read_registers env fd slave_addr start_addr quantity values max_values timeout_ms =
     (case modbus_build_read_request slave_addr start_addr quantity (Some (replicate 8 0)) 8 of
        (req_len, request) \<Rightarrow>
          if req_len < 0 then Some \<lparr>res_code = -1, res_values = values, res_wire = [], res_stdout = []\<rparr>
          else
            (let tx = ''  TX: '' @ the (modbus_hex_dump request req_len (Some []) 256)
             in (case serial_write fd request req_len (env_writes env) of
                   None \<Rightarrow> None
                 | Some (written, wire) \<Rightarrow>
                     if written \<noteq> req_len
                     then Some \<lparr>res_code = -1, res_values = values, res_wire = wire, res_stdout = [tx]\<rparr>
                     else
                       (case serial_read fd (Some (replicate 256 0)) 256 (env_select env) (env_read env) of
                          (resp_len, response) \<Rightarrow>
                            if resp_len \<le> 0
                            then Some \<lparr>res_code = -1, res_values = values, res_wire = wire, res_stdout = [tx]\<rparr>
                            else
                              (let rx = ''  RX: '' @ the (modbus_hex_dump (Some response) resp_len (Some []) 256)
                               in (case modbus_parse_response (Some response) resp_len values max_values of
                                     (rc, vals) \<Rightarrow> Some \<lparr>res_code = rc, res_values = vals,
                                        res_wire = wire, res_stdout = [tx, rx]\<rparr>))))))"

subsection \<open>Bytes and words\<close>

lemma bit_255: "bit (255 :: u16) n \<longleftrightarrow> n < 8"
  using bit_mask_iff [where 'a = "16 word", of 8 n] by (auto simp: mask_eq_exp_minus_1)

lemma bit_lo8: "bit (lo8 w) n \<longleftrightarrow> n < 8 \<and> bit w n"
  unfolding lo8_def bit_unsigned_iff bit_and_iff bit_255 by auto

lemma bit_hi8: "bit (hi8 w) n \<longleftrightarrow> n < 8 \<and> bit w (8 + n)"
  by (auto simp: hi8_def bit_simps)

lemma bit_be16: "bit (be16 h l) n \<longleftrightarrow> (if n < 8 then bit l n else bit h (n - 8))"
  by (auto simp: be16_def bit_simps dest: bit_imp_le_length)

lemma be16_hi8_lo8 [simp]: "be16 (hi8 w) (lo8 w) = w"
  by (rule bit_word_eqI) (auto simp: bit_be16 bit_hi8 bit_lo8)

lemma hi8_be16 [simp]: "hi8 (be16 h l) = h"
  by (rule bit_word_eqI) (auto simp: bit_be16 bit_hi8)

lemma lo8_be16 [simp]: "lo8 (be16 h l) = l"
  by (rule bit_word_eqI) (auto simp: bit_be16 bit_lo8)

lemma xor_cancel: "(x :: 'a::len word) XOR k = y XOR k \<Longrightarrow> x = y"
  by (metis xor.assoc xor_self_eq xor.right_neutral)

lemma xor_eq_iff: "(x :: 'a::len word) XOR y = z \<longleftrightarrow> x = z XOR y"
  by (auto simp: xor.assoc)

subsection \<open>A check that every byte of a message reaches: the interface\<close>

text \<open>
  A running checksum whose update can be undone: from the new state and the byte the old state
  is determined, and from the new state and the old one the byte. A message checked with such
  an update never has the same check value as a copy with one byte changed.
\<close>
locale chained_check =
  fixes upd :: "'s \<Rightarrow> 'b \<Rightarrow> 's"
  assumes upd_state: "upd s b = upd s' b \<Longrightarrow> s = s'"
    and upd_byte: "upd s b = upd s b' \<Longrightarrow> b = b'"
begin

lemma foldl_state: "foldl upd s bs = foldl upd s' bs \<Longrightarrow> s = s'"
  by (induction bs arbitrary: s s') (auto dest: upd_state)

lemma one_byte_changed:
  "foldl upd s (xs @ b # ys) = foldl upd s (xs @ b' # ys) \<Longrightarrow> b = b'"
  by (auto dest: foldl_state upd_byte)

lemma list_update_changed:
  assumes "i < length bs" and "foldl upd s (bs[i := b]) = foldl upd s bs"
  shows "b = bs ! i"
proof -
  have "foldl upd s (take i bs @ b # drop (Suc i) bs) = foldl upd s (take i bs @ bs ! i # drop (Suc i) bs)"
    using assms by (simp add: upd_conv_take_nth_drop flip: id_take_nth_drop)
  then show ?thesis by (rule one_byte_changed)
qed

end

subsection \<open>The CRC is such a check\<close>

lemma crc_bit_top: "bit (crc_bit c) 15 \<longleftrightarrow> c AND 1 \<noteq> 0"
  by (auto simp: crc_bit_def bit_simps dest: bit_imp_le_length)

lemma crc_bit_inj: "crc_bit a = crc_bit b \<Longrightarrow> a = b"
proof -
  assume eq: "crc_bit a = crc_bit b"
  then have low: "(a AND 1 \<noteq> 0) = (b AND 1 \<noteq> 0)" using crc_bit_top by metis
  have shift: "drop_bit 1 a = drop_bit 1 b"
    using eq low by (auto simp: crc_bit_def split: if_splits dest: xor_cancel)
  show "a = b"
  proof (rule bit_word_eqI)
    fix n
    show "bit a n = bit b n"
    proof (cases n)
      case 0
      then show ?thesis using low by (simp add: and_one_eq odd_iff_mod_2_eq_one bit_0)
    next
      case (Suc m)
      then show ?thesis using shift by (metis bit_drop_bit_eq comp_apply plus_1_eq_Suc)
    qed
  qed
qed

lemma crc_bits_inj: "crc_bits n a = crc_bits n b \<Longrightarrow> a = b"
  by (induction n arbitrary: a b) (auto dest: crc_bit_inj)

lemma ucast_u8_u16_inj: "(ucast (a :: u8) :: u16) = ucast b \<Longrightarrow> a = b"
  by (metis lo8_be16 be16_def)

interpretation crc: chained_check crc_byte
proof
  fix s s' :: u16 and b b' :: u8
  show "crc_byte s b = crc_byte s' b \<Longrightarrow> s = s'"
    unfolding crc_byte_def by (drule crc_bits_inj) (rule xor_cancel)
  show "crc_byte s b = crc_byte s b' \<Longrightarrow> b = b'"
    unfolding crc_byte_def by (drule crc_bits_inj)
      (metis xor.commute xor_cancel ucast_u8_u16_inj)
qed

text \<open>Shifting out zero bits only shifts; so a message followed by its own CRC has CRC 0.\<close>

lemma crc_bits_shift: "(\<And>i. i < n \<Longrightarrow> \<not> bit c i) \<Longrightarrow> crc_bits n c = drop_bit n c"
proof (induction n arbitrary: c)
  case (Suc n)
  have z: "c AND 1 = 0" using Suc.prems [of 0] by (simp add: and_one_eq bit_0 flip: even_iff_mod_2_eq_zero)
  have "crc_bits n (drop_bit 1 c) = drop_bit n (drop_bit 1 c)"
    by (rule Suc.IH) (use Suc.prems in \<open>simp add: bit_simps\<close>)
  then show ?case using z by (simp add: crc_bit_def)
qed simp

lemma crc_bits_0: "crc_bits n 0 = 0"
  using crc_bits_shift [of n 0] by simp

lemma crc_two_bytes: "crc_byte (crc_byte c l) h = 0 \<longleftrightarrow> c = be16 h l"
proof -
  have eq0: "crc_bits n x = 0 \<longleftrightarrow> x = 0" for n x
    using crc_bits_inj [of n x 0] by (auto simp: crc_bits_0)
  have sh: "crc_bits 8 (push_bit 8 (ucast h)) = ucast h" for h :: u8
  proof -
    have "drop_bit 8 (push_bit 8 (ucast h :: u16)) = ucast h"
      by (rule bit_word_eqI) (use bit_imp_le_length [of h] in \<open>auto simp: bit_simps\<close>)
    then show ?thesis by (subst crc_bits_shift) (auto simp: bit_simps)
  qed
  have "crc_byte (crc_byte c l) h = 0 \<longleftrightarrow> crc_byte c l = ucast h"
    unfolding crc_byte_def [of "crc_byte c l"] eq0 xor_eq_iff by simp
  also have "\<dots> \<longleftrightarrow> c XOR ucast l = push_bit 8 (ucast h)"
    unfolding crc_byte_def using sh [of h] crc_bits_inj [of 8 "c XOR ucast l"] by auto
  also have "\<dots> \<longleftrightarrow> c = push_bit 8 (ucast h) XOR ucast l"
    by (rule xor_eq_iff)
  also have "push_bit 8 (ucast h) XOR ucast l = be16 h l"
    unfolding be16_def by (rule bit_word_eqI) (auto simp: bit_simps dest: bit_imp_le_length)
  finally show ?thesis .
qed

lemma crc_of_append: "crc_of (xs @ ys) = foldl crc_byte (crc_of xs) ys"
  by (simp add: crc_of_def)

lemma crc_residue: "crc_of (xs @ [l, h]) = 0 \<longleftrightarrow> crc_of xs = be16 h l"
  by (simp add: crc_of_append crc_two_bytes)

subsection \<open>Protocol frames\<close>

text \<open>The response frame of function 0x03 as the protocol defines it.\<close>

definition reg_bytes :: "u16 list \<Rightarrow> u8 list" where
  "reg_bytes regs = concat (map (\<lambda>r. [hi8 r, lo8 r]) regs)"

definition with_crc :: "u8 list \<Rightarrow> u8 list" where
  "with_crc body = body @ [lo8 (crc_of body), hi8 (crc_of body)]"

definition read_response :: "u8 \<Rightarrow> u16 list \<Rightarrow> u8 list" where
  "read_response addr regs =
     with_crc ([addr, 3, of_nat (2 * length regs)] @ reg_bytes regs)"

definition read_request :: "u8 \<Rightarrow> u16 \<Rightarrow> u16 \<Rightarrow> u8 list" where
  "read_request addr start q = with_crc [addr, 3, hi8 start, lo8 start, hi8 q, lo8 q]"

lemma crc_with_crc: "crc_of (with_crc body) = 0"
  by (simp add: with_crc_def crc_residue)

lemma length_reg_bytes [simp]: "length (reg_bytes regs) = 2 * length regs"
  by (induction regs) (simp_all add: reg_bytes_def)

lemma reg_bytes_nth:
  "i < length regs \<Longrightarrow> reg_bytes regs ! (2 * i) = hi8 (regs ! i)
     \<and> reg_bytes regs ! (Suc (2 * i)) = lo8 (regs ! i)"
proof (induction regs arbitrary: i)
  case (Cons r regs)
  then show ?case by (cases i) (auto simp: reg_bytes_def)
qed simp

lemma length_read_response: "length (read_response a regs) = 2 * length regs + 5"
  by (simp add: read_response_def with_crc_def)

lemma read_response_header:
  "read_response a regs ! 0 = a" "read_response a regs ! 1 = 3"
  "read_response a regs ! 2 = of_nat (2 * length regs)"
  by (simp_all add: read_response_def with_crc_def nth_append)

lemma read_response_reg:
  assumes "i < length regs"
  shows "be16 (read_response a regs ! (3 + i * 2)) (read_response a regs ! (4 + i * 2)) = regs ! i"
proof -
  have "read_response a regs ! (3 + i * 2) = reg_bytes regs ! (2 * i)"
    "read_response a regs ! (4 + i * 2) = reg_bytes regs ! Suc (2 * i)"
    using assms by (simp_all add: read_response_def with_crc_def nth_append mult.commute)
  then show ?thesis using reg_bytes_nth [OF assms] by simp
qed

subsection \<open>What the parser accepts\<close>

text \<open>The acceptance condition, as the protocol states it.\<close>
definition valid_response :: "u8 list \<Rightarrow> bool" where
  "valid_response b \<longleftrightarrow> 5 \<le> length b \<and> b ! 1 = 3 \<and> length b = unat (b ! 2) + 5 \<and> crc_of b = 0"

lemma crc_trailer:
  assumes "2 \<le> length b"
  shows "be16 (b ! (length b - 1)) (b ! (length b - 2)) = crc_of (take (length b - 2) b) \<longleftrightarrow> crc_of b = 0"
proof -
  define n where "n = length b - 2"
  have n: "length b = Suc (Suc n)" using assms by (simp add: n_def)
  have "drop n b = b ! n # drop (Suc n) b"
    by (rule Cons_nth_drop_Suc [symmetric]) (simp add: n)
  also have "drop (Suc n) b = b ! Suc n # drop (Suc (Suc n)) b"
    by (rule Cons_nth_drop_Suc [symmetric]) (simp add: n)
  finally have "drop n b = [b ! n, b ! Suc n]" by (simp add: n)
  then have "b = take n b @ [b ! n, b ! Suc n]"
    using append_take_drop_id [of n b] by simp
  then have "crc_of b = 0 \<longleftrightarrow> crc_of (take n b) = be16 (b ! Suc n) (b ! n)"
    using crc_residue [of "take n b" "b ! n" "b ! Suc n"] by simp
  then show ?thesis using n by auto
qed

lemma parse_eq:
  assumes len: "len = int (length b)" and max: "0 < max_values"
  shows "modbus_parse_response (Some b) len (Some v) max_values =
    (if valid_response b
     then (min (int (unat (b ! 2) div 2)) max_values,
           Some (unpack_regs b 0 (nat (min (int (unat (b ! 2) div 2)) max_values)) v))
     else (-1, Some v))"
proof (cases "5 \<le> length b \<and> b ! 1 = 3 \<and> length b = unat (b ! 2) + 5")
  case True
  then have f: "b ! 1 = 3" and lb: "length b = unat (b ! 2) + 5" by auto
  have n1: "nat (len - 1) = length b - 1" unfolding len by arith
  have n2: "nat (len - 2) = length b - 2" unfolding len by arith
  have "5 \<le> length b" using True by blast
  then have n3: "\<not> len - 2 \<le> 0" "\<not> len < 5" unfolding len by linarith+
  have n4: "len = uint (b ! 2) + 5" unfolding len lb by simp
  have n5: "\<not> 3 + uint (b ! 2) \<le> 0" using uint_ge_0 [of "b ! 2"] by linarith
  note n = n1 n2 n3(1) n4 n3(2) n5
  have crc: "modbus_crc16 (Some b) (len - 2) = crc_of (take (length b - 2) b)"
    using n by (simp add: modbus_crc16_def)
  have q: "c_div (uint (b ! 2)) 2 = int (unat (b ! 2) div 2)"
    by (simp add: c_div_nonneg zdiv_int)
  have v: "valid_response b \<longleftrightarrow> crc_of b = 0" using True by (simp add: valid_response_def)
  have t: "be16 (b ! (length b - 1)) (b ! (length b - 2)) = crc_of (take (length b - 2) b) \<longleftrightarrow> crc_of b = 0"
    by (rule crc_trailer) (use True in simp)
  have fn: "(3 :: u8) AND 128 = 0" by simp
  show ?thesis
    unfolding modbus_parse_response_def Let_def crc q v prod.case option.case n(1,2) f t [symmetric]
    using max n(4,5,6) fn by (simp add: min_def not_less)
next
  case False
  then have "\<not> valid_response b" by (auto simp: valid_response_def)
  moreover have "len < 5 \<or> b ! 1 \<noteq> 3 \<or> len \<noteq> int (unat (b ! 2) + 5)"
    using False unfolding len of_nat_eq_iff by auto
  then have "len < 5 \<or> b ! 1 \<noteq> 3 \<or> len \<noteq> uint (b ! 2) + 5" by simp
  ultimately show ?thesis using max by (auto simp: modbus_parse_response_def Let_def)
qed



text \<open>
  Property C10. Error detection: a frame the parser accepts is never accepted with any single
  byte replaced by another value, wherever it is: header, data or CRC.
\<close>
theorem modbus_one_byte_error_detected:
  assumes "0 \<le> fst (modbus_parse_response (Some b) (int (length b)) (Some v) max_values)"
    and "i < length b" and "x \<noteq> b ! i" and "0 < max_values"
  shows "modbus_parse_response (Some (b[i := x])) (int (length b)) (Some v) max_values = (-1, Some v)"
proof -
  have "crc_of b = 0" using assms(1,4) by (simp add: parse_eq valid_response_def split: if_splits)
  moreover have "crc_of (b[i := x]) \<noteq> crc_of b"
    using crc.list_update_changed [OF assms(2)] assms(3) by (auto simp: crc_of_def)
  ultimately have "\<not> valid_response (b[i := x])" by (simp add: valid_response_def)
  then show ?thesis using parse_eq [of _ "b[i := x]"] assms(4) by simp
qed

subsection \<open>Round trips\<close>

lemma unpack_regs_length [simp]: "length (unpack_regs b i n v) = length v"
  by (induction b i n v rule: unpack_regs.induct) auto

lemma unpack_regs_nth:
  "j < length v \<Longrightarrow> unpack_regs b i n v ! j =
     (if i \<le> j \<and> j < i + n then be16 (b ! (3 + j * 2)) (b ! (4 + j * 2)) else v ! j)"
  by (induction b i n v rule: unpack_regs.induct) (auto simp: nth_list_update not_less_eq_eq dest: le_antisym)

lemma unat_of_nat_u8: "n < 256 \<Longrightarrow> unat (of_nat n :: u8) = n"
  by (simp add: unat_of_nat)

lemma unpack_regs_response:
  assumes "k \<le> length regs" and "k \<le> length v"
  shows "unpack_regs (read_response a regs) 0 k v = take k regs @ drop k v"
proof (rule nth_equalityI)
  fix j assume "j < length (unpack_regs (read_response a regs) 0 k v)"
  then show "unpack_regs (read_response a regs) 0 k v ! j = (take k regs @ drop k v) ! j"
    using assms by (auto simp: unpack_regs_nth nth_append read_response_reg)
qed (use assms in simp)

lemma valid_read_response:
  assumes "length regs \<le> 127" shows "valid_response (read_response a regs)"
proof -
  have "unat (of_nat (2 * length regs) :: u8) = 2 * length regs"
    using assms by (intro unat_of_nat_u8) simp
  moreover have "crc_of (read_response a regs) = 0" by (simp add: read_response_def crc_with_crc)
  ultimately show ?thesis
    unfolding valid_response_def read_response_header length_read_response by simp
qed

lemma response_parses:
  assumes "length regs \<le> 127" and "0 < m" and "min (length regs) m \<le> length v"
  shows "modbus_parse_response (Some (read_response addr regs))
           (int (length (read_response addr regs))) (Some v) (int m)
    = (int (min (length regs) m),
       Some (take (min (length regs) m) regs @ drop (min (length regs) m) v))"
proof -
  have c: "unat (read_response addr regs ! 2) div 2 = length regs"
    unfolding read_response_header using assms(1) by (subst unat_of_nat_u8) simp_all
  have "nat (min (int (length regs)) (int m)) = min (length regs) m" by (simp flip: of_nat_min)
  moreover have "unpack_regs (read_response addr regs) 0 (min (length regs) m) v
      = take (min (length regs) m) regs @ drop (min (length regs) m) v"
    using assms(3) by (intro unpack_regs_response) auto
  ultimately show ?thesis
    using assms(2) valid_read_response [OF assms(1)] parse_eq [OF refl, of "int m" "read_response addr regs" v]
    unfolding c by simp
qed

text \<open>
  Property C11. Round trip: the response frame for any register values (up to 127, what one byte
  count can announce) from any slave address parses back to those values; when the output array
  is smaller, the first \<open>max_values\<close> of them are delivered, and nothing behind them is touched.
\<close>
theorem modbus_response_roundtrip:
  assumes "length regs \<le> 127" and "0 < m" and "min (length regs) m \<le> length v"
  shows "modbus_parse_response (Some (read_response addr regs))
           (int (length (read_response addr regs))) (Some v) (int m)
    = (int (min (length regs) m),
       Some (take (min (length regs) m) regs @ drop (min (length regs) m) v))"
  using assms by (rule response_parses)

theorem modbus_response_roundtrip_witness:
  "modbus_parse_response (Some (read_response 1 [712, 2534, 320]))
     (int (length (read_response 1 [712, 2534, 320]))) (Some [0, 0, 0]) 3
   = (3, Some [712, 2534, 320])"
  using modbus_response_roundtrip [of "[712, 2534, 320]" 3 "[0, 0, 0]" 1] by simp

theorem modbus_one_byte_error_detected_witness:
  "modbus_parse_response (Some ((read_response 1 [712])[3 := 0xFF])) 7 (Some [0]) 1 = (-1, Some [0])"
proof -
  have "fst (modbus_parse_response (Some (read_response 1 [712])) (int (length (read_response 1 [712]))) (Some [0]) 1) = 1"
    using response_parses [of "[712]" 1 "[0]" 1] by simp
  moreover have "read_response 1 [712] ! 3 = hi8 712"
    by (simp add: read_response_def with_crc_def reg_bytes_def)
  ultimately show ?thesis
    using modbus_one_byte_error_detected [where b = "read_response 1 [712]" and v = "[0]"
        and max_values = 1 and i = 3 and x = "0xFF"]
    by (simp add: length_read_response hi8_def)
qed

lemma build_request_eq:
  assumes "buf_size = int (length b)"
  shows "modbus_build_read_request a start q (Some b) buf_size =
    (if 8 \<le> length b \<and> 1 \<le> unat q \<and> unat q \<le> 125
     then (8, Some (read_request a start q @ drop 8 b)) else (-1, Some b))"
proof (cases "8 \<le> length b \<and> 1 \<le> unat q \<and> unat q \<le> 125")
  case True
  then have q: "q \<noteq> 0" "\<not> 125 < q" by (auto simp: word_less_nat_alt unat_gt_0)
  let ?h = "[a, 3, hi8 start, lo8 start, hi8 q, lo8 q]"
  obtain x0 x1 x2 x3 x4 x5 x6 x7 r where b: "b = x0 # x1 # x2 # x3 # x4 # x5 # x6 # x7 # r"
    using True by (auto simp: numeral_eq_Suc Suc_le_length_iff)
  have "b[0 := a, 1 := 3, 2 := hi8 start, 3 := lo8 start, 4 := hi8 q, 5 := lo8 q] = ?h @ x6 # x7 # r"
    by (simp add: b)
  moreover have "modbus_crc16 (Some (?h @ x6 # x7 # r)) 6 = crc_of ?h"
    by (simp add: modbus_crc16_def)
  ultimately show ?thesis
    using True q assms
    by (simp add: modbus_build_read_request_def Let_def read_request_def with_crc_def b)
next
  case False
  then have "length b < 8 \<or> q = 0 \<or> 125 < q"
    by (auto simp: word_less_nat_alt not_le unat_eq_0 less_Suc_eq)
  with False assms show ?thesis by (auto simp: modbus_build_read_request_def)
qed

text \<open>
  The request builder returns 8 and the request frame of the protocol (address,
  function, start, quantity, all big-endian, and the CRC low byte first) followed by the rest
  of the buffer unchanged, exactly when the buffer has room for 8 bytes and the quantity is
  between 1 and 125; otherwise it returns \<^verbatim>\<open>-1\<close> and leaves the buffer alone.
\<close>
theorem modbus_build_read_request_correct:
  assumes "buf_size = int (length b)"
  shows "modbus_build_read_request a start q (Some b) buf_size =
    (if 8 \<le> length b \<and> 1 \<le> unat q \<and> unat q \<le> 125
     then (8, Some (read_request a start q @ drop 8 b)) else (-1, Some b))"
  using assms by (rule build_request_eq)

theorem modbus_build_read_request_correct_witness:
  "modbus_build_read_request 1 0 7 (Some (replicate 8 0)) 8 = (8, Some (read_request 1 0 7))"
  using modbus_build_read_request_correct [of 8 "replicate 8 0" 1 0 7] by simp

subsection \<open>The hexadecimal dump\<close>

text \<open>The dump of some bytes: two digits each, separated by blanks.\<close>
definition hex_text :: "u8 list \<Rightarrow> string" where
  "hex_text bs = tl (concat (map (\<lambda>b. CHR '' '' # fmt_02X b) bs))"

lemma hex_text_Nil [simp]: "hex_text [] = []"
  by (simp add: hex_text_def)

lemma hex_text_snoc:
  "hex_text (bs @ [b]) = hex_text bs @ (if bs = [] then [] else '' '') @ fmt_02X b"
  by (cases bs) (simp_all add: hex_text_def)

lemma length_hex_text: "length (hex_text bs) = 3 * length bs - 1"
  by (induction bs rule: rev_induct) (auto simp: hex_text_snoc)

lemma hex_dump_loop_correct:
  assumes "0 \<le> i" "i \<le> len" "len \<le> int (length b)" "out = hex_text (take (nat i) b)"
    "pos = int (length out)" "pos < out_size"
    and "hex_dump_loop b len out_size i pos out = (out', pos')"
  shows "\<exists>k \<le> nat len. out' = hex_text (take k b) \<and> int (length out') < out_size
    \<and> (k = nat len \<or> out_size - 4 \<le> int (length out'))"
  using assms
proof (induction b len out_size i pos out rule: hex_dump_loop.induct)
  case (1 b len out_size i pos out)
  let ?chunk = "(if i = 0 then '''' else '' '') @ fmt_02X (b ! nat i)"
  show ?case
  proof (cases "i < len \<and> pos < out_size - 4")
    case True
    have len_chunk: "length ?chunk \<le> 3" by simp
    have fits: "take (nat (out_size - pos) - 1) ?chunk = ?chunk"
      using True len_chunk by (intro take_all) linarith
    have sn: "snprintf (nat (out_size - pos)) ?chunk = (?chunk, int (length ?chunk))"
      unfolding snprintf_def fits ..
    have outp: "take (nat pos) out = out" using "1.prems" by simp
    have ib: "nat i < length b" using True "1.prems"(1,3) by linarith
    have tk: "take (nat (i + 1)) b = take (nat i) b @ [b ! nat i]"
      using take_Suc_conv_app_nth [OF ib] "1.prems"(1) by (simp add: nat_add_distrib)
    have ne: "(take (nat i) b = []) = (i = 0)" using True "1.prems" by auto
    have new: "out @ ?chunk = hex_text (take (nat (i + 1)) b)"
      unfolding tk hex_text_snoc ne using "1.prems"(4) by simp
    have step: "hex_dump_loop b len out_size i pos out
        = hex_dump_loop b len out_size (i + 1) (pos + int (length ?chunk)) (out @ ?chunk)"
      using True sn outp by (subst hex_dump_loop.simps) simp
    show ?thesis
    proof (rule "1.IH" [OF True sn [symmetric], unfolded outp])
      show "pos + int (length ?chunk) = int (length (out @ ?chunk))" using "1.prems"(5) by simp
      show "pos + int (length ?chunk) < out_size" using True len_chunk by linarith
    qed (use "1.prems" True new step in auto)
  next
    case False
    then have "out' = out" using "1.prems"(7) by (subst (asm) hex_dump_loop.simps) auto
    with False "1.prems" show ?thesis by (intro exI [of _ "nat i"]) auto
  qed
qed

text \<open>
  The hexadecimal dump never overruns its output buffer: for any buffer size it
  leaves a C string (with its NUL) that fits, which is the dump of a prefix of the bytes, and of
  all of them whenever \<open>3 * len + 1 < out_size\<close> (so for the 19-byte frames of the sensor in the
  256-byte buffer of the callers).
\<close>
theorem modbus_hex_dump_fits:
  assumes "0 < out_size" and "0 \<le> len" and "len \<le> int (length b)"
  shows "\<exists>k \<le> nat len. modbus_hex_dump (Some b) len (Some out) out_size = Some (hex_text (take k b))
    \<and> int (length (hex_text (take k b))) < out_size \<and> (3 * len + 1 < out_size \<longrightarrow> k = nat len)"
proof -
  obtain out' pos' where l: "hex_dump_loop b len out_size 0 0 '''' = (out', pos')" by fastforce
  from hex_dump_loop_correct [OF _ assms(2,3) _ _ _ l] assms(1)
  obtain k where k: "k \<le> nat len" "out' = hex_text (take k b)" "int (length out') < out_size"
    "k = nat len \<or> out_size - 4 \<le> int (length out')" by auto
  have "k = nat len" if "3 * len + 1 < out_size"
  proof (rule ccontr)
    assume n: "k \<noteq> nat len"
    with k(1,4) have "int k + 1 \<le> len" "out_size - 4 \<le> int (length out')" by auto
    moreover have "k \<le> length b" using k(1) assms(3) by linarith
    then have "length out' = 3 * k - 1" using k(2) by (simp add: length_hex_text min_absorb2)
    ultimately show False using that by linarith
  qed
  with k l assms(1) show ?thesis
    by (intro exI [of _ k]) (simp add: modbus_hex_dump_def)
qed

theorem modbus_hex_dump_fits_witness:
  "modbus_hex_dump (Some [1, 3, 0xEA]) 3 (Some []) 256 = Some ''01 03 EA''"
proof -
  from modbus_hex_dump_fits [of 256 3 "[1, 3, 0xEA]" "[]"]
  have "modbus_hex_dump (Some [1, 3, 0xEA]) 3 (Some []) 256 = Some (hex_text [1, 3, 0xEA])"
    by auto
  then show ?thesis by (simp add: hex_text_def fmt_02X_def hex_digit_def char_of_def bit_0)
qed

subsection \<open>The transaction\<close>

lemma read_request_length [simp]: "length (read_request a start q) = 8"
  by (simp add: read_request_def with_crc_def)

lemma serial_write_full:
  "serial_write fd (Some b) len outs = Some (w, wire) \<Longrightarrow> w = len \<Longrightarrow> len = int (length b) \<Longrightarrow> wire = b"
  by (auto simp: serial_write_def dest: serial_write_loop_all split: if_splits)

lemma serial_read_positive:
  "serial_read fd b n sel rd = (r, bs) \<Longrightarrow> 0 < r \<Longrightarrow> sel = Ready \<and> rd = Data bs \<and> r = int (length bs)"
  by (auto simp: serial_read_def split: if_splits select_ret.splits read_ret.splits)

text \<open>A transaction whose request could be built and sent.\<close>
lemma read_registers_eq:
  assumes "0 < m"
  shows "modbus_read_registers env fd a start q (Some v) m t =
    (if \<not> (1 \<le> unat q \<and> unat q \<le> 125)
     then Some \<lparr>res_code = -1, res_values = Some v, res_wire = [], res_stdout = []\<rparr>
     else let tx = ''  TX: '' @ the (modbus_hex_dump (Some (read_request a start q)) 8 (Some []) 256)
       in (case serial_write fd (Some (read_request a start q)) 8 (env_writes env) of None \<Rightarrow> None
          | Some (w, wire) \<Rightarrow>
              if w \<noteq> 8 then Some \<lparr>res_code = -1, res_values = Some v, res_wire = wire, res_stdout = [tx]\<rparr>
              else (case serial_read fd (Some (replicate 256 0)) 256 (env_select env) (env_read env) of (n, bs) \<Rightarrow>
                 if n \<le> 0 then Some \<lparr>res_code = -1, res_values = Some v, res_wire = wire, res_stdout = [tx]\<rparr>
                 else Some \<lparr>res_code = fst (modbus_parse_response (Some bs) n (Some v) m),
                        res_values = snd (modbus_parse_response (Some bs) n (Some v) m), res_wire = wire,
                        res_stdout = [tx, ''  RX: '' @ the (modbus_hex_dump (Some bs) n (Some []) 256)]\<rparr>)))"
proof -
  have b: "modbus_build_read_request a start q (Some (replicate 8 0)) 8 =
      (if 1 \<le> unat q \<and> unat q \<le> 125 then (8, Some (read_request a start q))
       else (-1, Some (replicate 8 0)))"
    by (subst build_request_eq) simp_all
  show ?thesis
    unfolding modbus_read_registers_def b by (auto simp: Let_def split: option.split prod.split)
qed

text \<open>
  Property C12. One read transaction, end to end. It delivers a register count only if the
  request frame went out completely, byte for byte, and one read returned a frame the parser
  accepts; the registers are then those of that frame. On every other path (bad quantity, write
  error or short write, timeout, interrupted or failing read, rejected frame) it returns
  \<^verbatim>\<open>-1\<close> and leaves the caller's array as it was.
\<close>
theorem modbus_read_registers_correct:
  assumes "modbus_read_registers env fd a start q (Some v) m timeout_ms = Some res" and "0 < m"
  shows "(0 \<le> res_code res \<longrightarrow>
      res_wire res = read_request a start q \<and> env_select env = Ready \<and>
      (\<exists>bs. env_read env = Data bs \<and> valid_response bs \<and>
         (res_code res, res_values res) = modbus_parse_response (Some bs) (int (length bs)) (Some v) m))
    \<and> (res_code res < 0 \<longrightarrow> res_code res = -1 \<and> res_values res = Some v)"
proof (cases "res_code res = -1 \<and> res_values res = Some v")
  case False
  with assms obtain wire n bs where w: "serial_write fd (Some (read_request a start q)) 8 (env_writes env) = Some (8, wire)"
    and r: "serial_read fd (Some (replicate 256 0)) 256 (env_select env) (env_read env) = (n, bs)" "0 < n"
    and res: "res_wire res = wire"
      "(res_code res, res_values res) = modbus_parse_response (Some bs) n (Some v) m"
    by (auto simp: read_registers_eq Let_def prod_eq_iff split: if_splits option.splits prod.splits)
  have "wire = read_request a start q" by (rule serial_write_full [OF w]) simp_all
  with serial_read_positive [OF r] res False assms(2) show ?thesis
    by (auto simp: parse_eq prod_eq_iff split: if_splits)
qed simp

theorem modbus_read_registers_correct_witness:
  "\<exists>res. modbus_read_registers \<lparr>env_writes = [Err], env_select = Ready, env_read = Read_err\<rparr> 4 1 0 1
       (Some [9]) 1 500 = Some res \<and> res_code res = -1 \<and> res_values res = Some [9]"
proof -
  obtain res where res: "modbus_read_registers \<lparr>env_writes = [Err], env_select = Ready, env_read = Read_err\<rparr> 4 1 0 1
       (Some [9]) 1 500 = Some res"
    by (simp add: read_registers_eq serial_write_def Let_def)
  have "\<not> 0 \<le> res_code res"
    using modbus_read_registers_correct [OF res] by auto
  with modbus_read_registers_correct [OF res] res show ?thesis by simp
qed

text \<open>The good case, as a lemma the collector uses too.\<close>
lemma read_registers_delivers:
  assumes "0 \<le> fd" and "1 \<le> length regs" and "length regs \<le> 125" and "length regs \<le> length v"
    and "env_writes env = [Ret 8]" and "env_select env = Ready"
    and "env_read env = Data (read_response a' regs)"
  shows "\<exists>res. modbus_read_registers env fd a start (of_nat (length regs)) (Some v)
             (int (length regs)) timeout_ms = Some res
    \<and> res_code res = int (length regs) \<and> res_values res = Some (regs @ drop (length regs) v)
    \<and> res_wire res = read_request a start (of_nat (length regs))"
proof -
  let ?q = "of_nat (length regs) :: u16"
  have q: "unat ?q = length regs" using assms(3) by (simp add: unat_of_nat)
  have w: "serial_write fd (Some (read_request a start ?q)) 8 (env_writes env)
      = Some (8, read_request a start ?q)"
    using assms(1,5) by (simp add: serial_write_def)
  have r: "serial_read fd (Some (replicate 256 0)) 256 (env_select env) (env_read env)
      = (int (length (read_response a' regs)), read_response a' regs)"
    using assms(1,6,7) by (simp add: serial_read_def)
  have "modbus_parse_response (Some (read_response a' regs)) (int (length (read_response a' regs)))
      (Some v) (int (length regs)) = (int (length regs), Some (regs @ drop (length regs) v))"
    using response_parses [of regs "length regs" v a'] assms(2,3,4) by (cases regs) simp_all
  moreover have m: "0 < int (length regs)" using assms(2) by linarith
  ultimately show ?thesis
    using assms(2,3) w r by (simp add: read_registers_eq [OF m] q length_read_response)
qed

text \<open>
  The good case: when a response frame for the requested number of registers
  arrives in time, on a line that takes the whole request, the caller gets exactly its
  registers. This holds for a frame that carries any slave address \<open>a'\<close>, not only the one
  that was asked: the master never compares the two.
\<close>
theorem modbus_read_registers_delivers:
  assumes "0 \<le> fd" and "1 \<le> length regs" and "length regs \<le> 125" and "length regs \<le> length v"
    and "env_writes env = [Ret 8]" and "env_select env = Ready"
    and "env_read env = Data (read_response a' regs)"
  shows "\<exists>res. modbus_read_registers env fd a start (of_nat (length regs)) (Some v)
             (int (length regs)) timeout_ms = Some res
    \<and> res_code res = int (length regs) \<and> res_values res = Some (regs @ drop (length regs) v)
    \<and> res_wire res = read_request a start (of_nat (length regs))"
  using assms by (rule read_registers_delivers)

theorem modbus_read_registers_delivers_witness:
  "\<exists>res. modbus_read_registers
        \<lparr>env_writes = [Ret 8], env_select = Ready, env_read = Data (read_response 9 [712, 2534])\<rparr>
        3 1 0 (of_nat (length [712, 2534 :: u16])) (Some [0, 0]) (int (length [712, 2534 :: u16])) 500 = Some res
     \<and> res_values res = Some [712, 2534]"
  using modbus_read_registers_delivers [of 3 "[712, 2534]" "[0, 0]"
      "\<lparr>env_writes = [Ret 8], env_select = Ready, env_read = Data (read_response 9 [712, 2534])\<rparr>" 9 1 0 500]
  by auto

subsection \<open>The parser reads only the first \<open>len\<close> bytes\<close>

lemma unpack_regs_cong:
  "(\<And>j. j < 3 + 2 * (i + n) \<Longrightarrow> b ! j = b' ! j) \<Longrightarrow> unpack_regs b i n v = unpack_regs b' i n v"
  by (induction b i n v rule: unpack_regs.induct) simp_all

lemma parse_take:
  assumes "n \<le> length b"
  shows "modbus_parse_response (Some b) (int n) (Some v) m
    = modbus_parse_response (Some (take n b)) (int n) (Some v) m"
proof (cases "5 \<le> n \<and> int n = uint (b ! 2) + 5")
  case True
  have sub: "b ! j = take n b ! j" if "j < n" for j using that by simp
  define k where "k = unat (b ! 2)"
  have n: "n = k + 5" using True int_int_eq [of n "k + 5"] by (simp add: k_def)
  have u: "uint (b ! 2) = int k" by (simp add: k_def)
  have q: "c_div (int k) 2 = int (k div 2)" by (simp add: c_div_nonneg zdiv_int)
  have up: "unpack_regs b 0 j v = unpack_regs (take n b) 0 j v" if "j \<le> k div 2" for j
    using that by (intro unpack_regs_cong sub) (simp add: n)
  have i: "nat (int n - 1) = k + 4" "nat (int n - 2) = k + 3" "\<not> int n - 2 \<le> 0"
    unfolding n by arith+
  have "modbus_crc16 (Some b) (int n - 2) = modbus_crc16 (Some (take n b)) (int n - 2)"
    using i by (simp add: modbus_crc16_def n min_def)
  moreover have "take n b ! 1 = b ! 1" "take n b ! 2 = b ! 2" "take n b ! (k + 4) = b ! (k + 4)"
    "take n b ! (k + 3) = b ! (k + 3)" by (simp_all add: n)
  ultimately show ?thesis
    unfolding modbus_parse_response_def Let_def prod.case option.case i u
    using up [of "k div 2"] up [of "nat m"] by (auto simp only: u q nat_int split: if_splits)
next
  case False
  with assms show ?thesis by (auto simp: modbus_parse_response_def Let_def)
qed

end
