(* ===== verification/C_Float.thy ===== *)
theory C_Float
  imports Gw_Prelude
begin

section \<open>The C type \<^verbatim>\<open>float\<close>\<close>

text \<open>
  An executable model of IEEE 754 single precision with rounding to nearest, ties to even, as
  the target computes it. Every finite single is an integer multiple of \<open>2 ^ -149\<close>, so a finite
  value is a sign and the natural number of those units; comparison is then comparison of
  integers, and rounding is one function \<open>round24\<close> on exact quotients. \<^verbatim>\<open>double\<close> occurs only as
  the type of the columns the samples are stored in: it is modelled the same way, in units of
  \<open>2 ^ -1074\<close>.
\<close>

datatype f32 = Fin bool nat | Inf bool | NaN

datatype f64 = DFin bool nat | DInf bool | DNaN

subsection \<open>Rounding\<close>

fun bitlen :: "nat \<Rightarrow> nat" where
  "bitlen n = (if n = 0 then 0 else Suc (bitlen (n div 2)))"

declare bitlen.simps [simp del]

text \<open>The integer nearest to \<open>n / m\<close>, the even one of two.\<close>
definition rne_div :: "nat \<Rightarrow> nat \<Rightarrow> nat" where
  "rne_div n m =
     (let q = n div m; r = n mod m
      in if 2 * r < m \<or> (2 * r = m \<and> even q) then q else q + 1)"

text \<open>\<open>n / m\<close> rounded to 24 significant bits (fewer below the normal range).\<close>
definition round24 :: "nat \<Rightarrow> nat \<Rightarrow> nat" where
  "round24 n m = (let d = bitlen (n div m) - 24 in rne_div n (m * 2 ^ d) * 2 ^ d)"

definition f32_pack :: "bool \<Rightarrow> nat \<Rightarrow> f32" where
  "f32_pack s k = (if 2 ^ 277 \<le> k then Inf s else Fin s k)"

subsection \<open>Operations the sources use\<close>

text \<open>A positive literal \<open>p / q\<close>, such as \<^verbatim>\<open>0.01f\<close>.\<close>
definition f32_lit :: "nat \<Rightarrow> nat \<Rightarrow> f32" where
  "f32_lit p q = f32_pack False (round24 (p * 2 ^ 149) q)"

text \<open>The literal \<^verbatim>\<open>0.01f\<close>.\<close>
definition f32_001 :: f32 where
  "f32_001 = f32_lit 1 100"

text \<open>\<^verbatim>\<open>(float)i\<close>.\<close>
definition f32_of_int :: "int \<Rightarrow> f32" where
  "f32_of_int i = f32_pack (i < 0) (round24 (nat \<bar>i\<bar> * 2 ^ 149) 1)"

fun f32_mul :: "f32 \<Rightarrow> f32 \<Rightarrow> f32" where
  "f32_mul (Fin s j) (Fin t k) = f32_pack (s \<noteq> t) (round24 (j * k) (2 ^ 149))"
| "f32_mul (Inf s) (Inf t) = Inf (s \<noteq> t)"
| "f32_mul (Inf s) (Fin t k) = (if k = 0 then NaN else Inf (s \<noteq> t))"
| "f32_mul (Fin s j) (Inf t) = (if j = 0 then NaN else Inf (s \<noteq> t))"
| "f32_mul _ _ = NaN"

fun units :: "bool \<Rightarrow> nat \<Rightarrow> int" where
  "units s k = (if s then - int k else int k)"

fun f32_add :: "f32 \<Rightarrow> f32 \<Rightarrow> f32" where
  "f32_add (Fin s j) (Fin t k) =
     (let z = units s j + units t k
      in f32_pack (if z = 0 then s \<and> t else z < 0) (round24 (nat \<bar>z\<bar>) 1))"
| "f32_add (Inf s) (Inf t) = (if s = t then Inf s else NaN)"
| "f32_add (Inf s) (Fin t k) = Inf s"
| "f32_add (Fin s j) (Inf t) = Inf t"
| "f32_add _ _ = NaN"

fun f32_lt :: "f32 \<Rightarrow> f32 \<Rightarrow> bool" where
  "f32_lt (Fin s j) (Fin t k) = (units s j < units t k)"
| "f32_lt (Inf s) (Inf t) = (s \<and> \<not> t)"
| "f32_lt (Inf s) (Fin t k) = s"
| "f32_lt (Fin s j) (Inf t) = (\<not> t)"
| "f32_lt _ _ = False"

abbreviation f32_gt :: "f32 \<Rightarrow> f32 \<Rightarrow> bool" where
  "f32_gt x y \<equiv> f32_lt y x"

text \<open>\<^verbatim>\<open>(int)x\<close>: truncation; \<open>None\<close> where C leaves the conversion undefined.\<close>
fun f32_to_int :: "f32 \<Rightarrow> int option" where
  "f32_to_int (Fin s k) =
     (let i = units s (k div 2 ^ 149) in if is_c_int i then Some i else None)"
| "f32_to_int _ = None"

text \<open>\<^verbatim>\<open>(double)x\<close> is exact; \<^verbatim>\<open>(float)d\<close> rounds.\<close>
fun f64_of_f32 :: "f32 \<Rightarrow> f64" where
  "f64_of_f32 (Fin s k) = DFin s (k * 2 ^ 925)"
| "f64_of_f32 (Inf s) = DInf s"
| "f64_of_f32 NaN = DNaN"

fun f32_of_f64 :: "f64 \<Rightarrow> f32" where
  "f32_of_f64 (DFin s k) = f32_pack s (round24 k (2 ^ 925))"
| "f32_of_f64 (DInf s) = Inf s"
| "f32_of_f64 DNaN = NaN"

text \<open>\<^verbatim>\<open>%.Nf\<close>: the exact value, rounded to \<open>d\<close> decimals with ties to even.\<close>

definition fmt_pad :: "nat \<Rightarrow> nat \<Rightarrow> string" where
  "fmt_pad w n = replicate (w - length (fmt_nat n)) (CHR ''0'') @ fmt_nat n"

definition fmt_scaled :: "nat \<Rightarrow> nat \<Rightarrow> string" where
  "fmt_scaled d h = fmt_nat (h div 10 ^ d) @ ''.'' @ fmt_pad d (h mod 10 ^ d)"

fun fmt_fixed :: "nat \<Rightarrow> f32 \<Rightarrow> string" where
  "fmt_fixed d (Fin s k) =
     (if s then ''-'' else []) @ fmt_scaled d (rne_div (k * 10 ^ d) (2 ^ 149))"
| "fmt_fixed d (Inf s) = (if s then ''-inf'' else ''inf'')"
| "fmt_fixed d NaN = ''nan''"

subsection \<open>Values that fit the format\<close>

definition fits24 :: "nat \<Rightarrow> bool" where
  "fits24 k \<longleftrightarrow> 2 ^ (bitlen k - 24) dvd k"

fun is_f32 :: "f32 \<Rightarrow> bool" where
  "is_f32 (Fin s k) = (k < 2 ^ 277 \<and> fits24 k)"
| "is_f32 _ = True"

subsection \<open>Bit length\<close>

lemma bitlen_0 [simp]: "bitlen 0 = 0"
  by (simp add: bitlen.simps)

lemma bitlen_upper: "n < 2 ^ bitlen n"
proof (induction n rule: bitlen.induct)
  case (1 n)
  then show ?case by (cases "n = 0") (auto simp: bitlen.simps [of n])
qed

lemma bitlen_lower: "0 < n \<Longrightarrow> 2 ^ (bitlen n - 1) \<le> n"
proof (induction n rule: bitlen.induct)
  case (1 n)
  show ?case
  proof (cases "n div 2 = 0")
    case True
    with 1 show ?thesis by (simp add: bitlen.simps [of n])
  next
    case False
    with 1 have "2 ^ (bitlen (n div 2) - 1) \<le> n div 2" by simp
    moreover have "0 < bitlen (n div 2)" using False by (subst bitlen.simps) simp
    ultimately have "2 ^ bitlen (n div 2) \<le> 2 * (n div 2)"
      by (metis One_nat_def Suc_pred mult_le_mono2 power_Suc)
    with 1 show ?thesis by (simp add: bitlen.simps [of n])
  qed
qed

lemma bitlen_le_iff: "bitlen n \<le> b \<longleftrightarrow> n < 2 ^ b"
proof
  assume "bitlen n \<le> b"
  then have "(2::nat) ^ bitlen n \<le> 2 ^ b" by simp
  with bitlen_upper [of n] show "n < 2 ^ b" by linarith
next
  assume n: "n < 2 ^ b"
  show "bitlen n \<le> b"
  proof (cases "n = 0")
    case False
    then have "(2::nat) ^ (bitlen n - 1) < 2 ^ b" using n bitlen_lower [of n] by linarith
    then have "bitlen n - 1 < b" by (rule power_less_imp_less_exp [rotated]) simp
    then show ?thesis by simp
  qed simp
qed

lemma bitlen_mono: "m \<le> n \<Longrightarrow> bitlen m \<le> bitlen n"
  using bitlen_upper [of n] by (simp add: bitlen_le_iff)

subsection \<open>Rounding to an integer\<close>

lemma rne_div_ge: "n div m \<le> rne_div n m"
  by (simp add: rne_div_def Let_def)

lemma rne_div_le_Suc: "rne_div n m \<le> n div m + 1"
  by (simp add: rne_div_def Let_def)

lemma rne_div_exact [simp]: "0 < m \<Longrightarrow> rne_div (k * m) m = k"
  by (simp add: rne_div_def Let_def)

lemma rne_div_mono:
  assumes "n \<le> n'" shows "rne_div n m \<le> rne_div n' m"
proof (cases "n div m = n' div m")
  case True
  with assms have "n mod m \<le> n' mod m"
    by (metis mult_div_mod_eq add_le_cancel_left)
  with True show ?thesis by (auto simp: rne_div_def Let_def)
next
  case False
  with assms have "n div m + 1 \<le> n' div m" using div_le_mono [of n n' m] by simp
  then show ?thesis using rne_div_le_Suc [of n m] rne_div_ge [of n' m] by linarith
qed

lemma rne_div_le: "0 < m \<Longrightarrow> n \<le> k * m \<Longrightarrow> rne_div n m \<le> k"
  using rne_div_mono [of n "k * m" m] by simp

lemma rne_div_geI: "0 < m \<Longrightarrow> k * m \<le> n \<Longrightarrow> k \<le> rne_div n m"
  using rne_div_mono [of "k * m" n m] by simp

lemma rne_div_cancel:
  assumes "0 < c" shows "rne_div (n * c) (m * c) = rne_div n m"
proof -
  have md: "(n * c) mod (m * c) = (n mod m) * c" by (rule mod_mult_mult2)
  have dv: "(n * c) div (m * c) = n div m" using assms by (intro div_mult_mult2) simp
  have e: "2 * (n mod m * c) = (2 * (n mod m)) * c" by simp
  show ?thesis
    unfolding rne_div_def Let_def md dv e using assms by (simp only: mult_less_cancel2 mult_cancel2) auto
qed

lemma rne_div_err:
  assumes "0 < m" shows "2 * \<bar>int (m * rne_div n m) - int n\<bar> \<le> int m"
proof -
  define q r where "q = n div m" and "r = n mod m"
  have n: "int n = int (m * q) + int r" unfolding q_def r_def by (metis of_nat_add mult_div_mod_eq)
  have r: "r < m" using assms by (simp add: r_def)
  show ?thesis
  proof (cases "2 * r < m \<or> (2 * r = m \<and> even q)")
    case True
    then have "rne_div n m = q" by (simp add: rne_div_def Let_def q_def r_def)
    with n True show ?thesis by auto
  next
    case False
    then have "rne_div n m = q + 1" by (auto simp: rne_div_def Let_def q_def r_def)
    moreover have "int (m * (q + 1)) - int n = int m - int r" using n by simp
    ultimately show ?thesis using False r by auto
  qed
qed

lemma half_sum_less: "c \<le> a + b \<Longrightarrow> 2 * a \<le> m \<Longrightarrow> 2 * b < m \<Longrightarrow> c < (m::int)"
  by linarith

lemma abs_close_trans:
  "2 * \<bar>x - n\<bar> \<le> m \<Longrightarrow> 2 * \<bar>n - y\<bar> < m \<Longrightarrow> \<bar>x - y\<bar> < (m::int)"
  by (rule half_sum_less [of _ "\<bar>x - n\<bar>" "\<bar>n - y\<bar>"])
    (use abs_triangle_ineq [of "x - n" "n - y"] in simp)

text \<open>An integer that is close enough is the rounded one.\<close>
lemma rne_div_eqI:
  assumes m: "0 < m" and close: "2 * \<bar>int n - int m * int k\<bar> < int m"
  shows "rne_div n m = k"
proof -
  have "\<bar>int m * int (rne_div n m) - int m * int k\<bar> < int m"
    using abs_close_trans [OF rne_div_err [OF m, of n] close] by simp
  then have "int m * \<bar>int (rne_div n m) - int k\<bar> < int m * 1"
    by (simp add: abs_mult flip: right_diff_distrib)
  then have "\<bar>int (rne_div n m) - int k\<bar> < 1"
    using m by (simp only: mult_less_cancel_left_pos of_nat_0_less_iff)
  then show ?thesis by linarith
qed

subsection \<open>Rounding to 24 bits\<close>

lemma round24_cancel: "0 < c \<Longrightarrow> round24 (n * c) (m * c) = round24 n m"
  using rne_div_cancel [of c n "m * 2 ^ d" for d]
  by (simp add: round24_def Let_def mult.assoc mult.commute [of c])

lemma round24_le_pow:
  assumes "0 < m" and "bitlen (n div m) \<le> 24 + d"
  shows "round24 n m \<le> 2 ^ (24 + d)"
proof -
  let ?e = "bitlen (n div m) - 24"
  have "n div m < 2 ^ (24 + ?e)" by (simp flip: bitlen_le_iff)
  then have "n < 2 ^ (24 + ?e) * m" using assms(1) by (simp add: div_less_iff_less_mult)
  then have "n \<le> 2 ^ 24 * (m * 2 ^ ?e)" by (simp add: power_add algebra_simps)
  then have "rne_div n (m * 2 ^ ?e) \<le> 2 ^ 24" using assms(1) by (intro rne_div_le) auto
  then have "round24 n m \<le> 2 ^ 24 * 2 ^ ?e" by (simp add: round24_def Let_def)
  also have "\<dots> = 2 ^ (24 + ?e)" by (simp only: power_add)
  also have "\<dots> \<le> 2 ^ (24 + d)" using assms(2) by (intro power_increasing) auto
  finally show ?thesis .
qed

lemma round24_ge_pow:
  assumes "0 < m" and "bitlen (n div m) = 24 + d" 
  shows "2 ^ (23 + d) \<le> round24 n m"
proof -
  have "0 < n div m" using assms(2) by (cases "n div m = 0") auto
  then have "2 ^ (23 + d) \<le> n div m" using bitlen_lower [of "n div m"] assms(2) by simp
  then have "2 ^ (23 + d) * m \<le> n" using assms(1) by (simp add: less_eq_div_iff_mult_less_eq)
  then have "2 ^ 23 * (m * 2 ^ d) \<le> n" by (simp add: power_add algebra_simps)
  then have "2 ^ 23 \<le> rne_div n (m * 2 ^ d)" using assms(1) by (intro rne_div_geI) auto
  then show ?thesis using assms(2) by (simp add: round24_def Let_def power_add)
qed

lemma round24_mono:
  assumes "0 < m" and "n \<le> n'"
  shows "round24 n m \<le> round24 n' m"
proof -
  let ?d = "bitlen (n div m) - 24" and ?d' = "bitlen (n' div m) - 24"
  have le: "bitlen (n div m) \<le> bitlen (n' div m)"
    using assms by (intro bitlen_mono div_le_mono)
  show ?thesis
  proof (cases "?d = ?d'")
    case True
    then show ?thesis using assms rne_div_mono [of n n'] by (simp add: round24_def Let_def)
  next
    case False
    with le have lt: "?d + 1 \<le> ?d'" and b': "bitlen (n' div m) = 24 + ?d'" by linarith+
    have "round24 n m \<le> 2 ^ (24 + ?d)" using assms(1) by (rule round24_le_pow) simp
    also have "\<dots> \<le> (2::nat) ^ (23 + ?d')" using lt by (intro power_increasing) auto
    also have "\<dots> \<le> round24 n' m" using assms(1) b' by (rule round24_ge_pow)
    finally show ?thesis .
  qed
qed

lemma scale_err: "2 * e \<le> (M::int) \<Longrightarrow> 2 ^ 23 * M \<le> n \<Longrightarrow> 2 ^ 24 * e \<le> n"
  by simp

text \<open>The relative error of a rounded normal value is at most \<open>2 ^ -24\<close>.\<close>
lemma round24_err:
  assumes m: "0 < m" and big: "2 ^ 23 * m \<le> n"
  shows "2 ^ 24 * \<bar>int m * int (round24 n m) - int n\<bar> \<le> int n"
proof -
  let ?d = "bitlen (n div m) - 24"
  have q: "2 ^ 23 \<le> n div m" using m big by (simp add: less_eq_div_iff_mult_less_eq)
  then have "\<not> bitlen (n div m) \<le> 23" by (simp add: bitlen_le_iff)
  then have b: "bitlen (n div m) = 24 + ?d" by simp
  have "0 < n div m" using q by (rule less_le_trans [rotated]) simp
  then have "2 ^ (23 + ?d) \<le> n div m" using bitlen_lower [of "n div m"] b by simp
  then have "2 ^ (23 + ?d) * m \<le> n" using m by (simp add: less_eq_div_iff_mult_less_eq)
  then have "2 ^ 23 * (m * 2 ^ ?d) \<le> n" by (simp add: power_add algebra_simps)
  then have "int (2 ^ 23 * (m * 2 ^ ?d)) \<le> int n" by (simp only: of_nat_le_iff)
  then have n: "2 ^ 23 * int (m * 2 ^ ?d) \<le> int n"
    by (simp only: of_nat_mult of_nat_power of_nat_numeral)
  have "2 * \<bar>int (m * 2 ^ ?d * rne_div n (m * 2 ^ ?d)) - int n\<bar> \<le> int (m * 2 ^ ?d)"
    using m by (intro rne_div_err) simp
  moreover have "m * 2 ^ ?d * rne_div n (m * 2 ^ ?d) = m * round24 n m"
    by (simp add: round24_def Let_def)
  ultimately have "2 * \<bar>int (m * round24 n m) - int n\<bar> \<le> int (m * 2 ^ ?d)" by (simp only:)
  from scale_err [OF this n] show ?thesis by (simp only: of_nat_mult)
qed

text \<open>Rounding gives a value of the format, and leaves one unchanged.\<close>

lemma fits24_0 [simp]: "fits24 0"
  by (simp add: fits24_def)

lemma fits24_mult: "n < 2 ^ 24 \<Longrightarrow> fits24 (n * 2 ^ e)"
proof -
  assume "n < 2 ^ 24"
  then have "n * 2 ^ e < 2 ^ (24 + e)" by (simp add: power_add)
  then have "bitlen (n * 2 ^ e) - 24 \<le> e" by (simp flip: bitlen_le_iff)
  then show ?thesis unfolding fits24_def by (intro dvd_mult le_imp_power_dvd)
qed

lemma fits24_round24:
  assumes m: "0 < m" shows "fits24 (round24 n m)"
proof -
  let ?d = "bitlen (n div m) - 24"
  have k: "round24 n m = rne_div n (m * 2 ^ ?d) * 2 ^ ?d" by (simp add: round24_def Let_def)
  have "round24 n m \<le> 2 ^ (24 + ?d)" using m by (rule round24_le_pow) simp
  then have "rne_div n (m * 2 ^ ?d) \<le> 2 ^ 24" unfolding k power_add by simp
  then consider "rne_div n (m * 2 ^ ?d) < 2 ^ 24" | "rne_div n (m * 2 ^ ?d) = 2 ^ 24" by linarith
  then show ?thesis
  proof cases
    case 1
    then show ?thesis unfolding k by (rule fits24_mult)
  next
    case 2
    then have "round24 n m = 1 * 2 ^ (24 + ?d)" unfolding k by (simp only: power_add mult_1)
    then show ?thesis using fits24_mult [of 1 "24 + ?d"] by simp
  qed
qed

lemma round24_id:
  assumes "fits24 k" shows "round24 k 1 = k"
proof -
  let ?d = "bitlen k - 24"
  obtain j where j: "k = j * 2 ^ ?d" using assms by (auto simp: fits24_def dvd_def mult.commute)
  have "round24 k 1 = rne_div k (2 ^ ?d) * 2 ^ ?d" by (simp add: round24_def Let_def)
  also have "rne_div k (2 ^ ?d) = j" by (subst j, subst rne_div_exact) simp_all
  finally show ?thesis using j by simp
qed

lemma is_f32_pack: "fits24 k \<Longrightarrow> is_f32 (f32_pack s k)"
  by (simp add: f32_pack_def)

lemma is_f32_mul: "is_f32 (f32_mul x y)"
  by (cases "(x, y)" rule: f32_mul.cases) (simp_all add: is_f32_pack fits24_round24)

lemma is_f32_add: "is_f32 (f32_add x y)"
  by (cases "(x, y)" rule: f32_add.cases) (simp_all add: is_f32_pack fits24_round24 Let_def)

lemma is_f32_of_int: "is_f32 (f32_of_int i)"
  by (simp add: f32_of_int_def is_f32_pack fits24_round24)

lemma is_f32_lit: "0 < q \<Longrightarrow> is_f32 (f32_lit p q)"
  by (simp add: f32_lit_def is_f32_pack fits24_round24)

text \<open>Storing a \<^verbatim>\<open>float\<close> in a \<^verbatim>\<open>double\<close> column and reading it back loses nothing.\<close>

lemma f32_of_f64_of_f32: "is_f32 x \<Longrightarrow> f32_of_f64 (f64_of_f32 x) = x"
proof (cases x)
  case (Fin s k)
  assume "is_f32 x"
  then have k: "k < 2 ^ 277" "fits24 k" using Fin by simp_all
  have "round24 (k * 2 ^ 925) (1 * 2 ^ 925) = round24 k 1" by (rule round24_cancel) simp
  then have "round24 (k * 2 ^ 925) (2 ^ 925) = k" using round24_id [OF k(2)] by (simp only: mult_1)
  then show ?thesis
    using k(1) unfolding Fin f64_of_f32.simps f32_of_f64.simps f32_pack_def by (simp only:) simp
qed simp_all

subsection \<open>Integers and hundredths\<close>

text \<open>
  The registers of the slave carry hundredths; the gateway multiplies by \<^verbatim>\<open>0.01f\<close>. The literal
  is below one hundredth by a relative \<open>2.2 * 10 ^ -8\<close>; \<open>centi r\<close> is the product, in units.
\<close>

lemma round24_int: "n < 2 ^ 24 \<Longrightarrow> round24 (n * 2 ^ 149) 1 = n * 2 ^ 149"
  by (rule round24_id) (rule fits24_mult)

lemma f32_of_int_small:
  assumes "\<bar>i\<bar> < 2 ^ 24"
  shows "f32_of_int i = Fin (i < 0) (nat \<bar>i\<bar> * 2 ^ 149)"
proof -
  have n: "nat \<bar>i\<bar> < 2 ^ 24" using assms by simp
  have "nat \<bar>i\<bar> * 2 ^ 149 < 2 ^ 24 * 2 ^ 149" using n by simp
  also have "\<dots> \<le> (2::nat) ^ 277" by simp
  finally show ?thesis
    unfolding f32_of_int_def round24_int [OF n] f32_pack_def by (simp only: not_le [symmetric] if_False)
qed

definition hundredth :: nat where
  "hundredth = 10737418 * 2 ^ 119"

definition centi :: "nat \<Rightarrow> nat" where
  "centi r = round24 (r * hundredth) 1"

lemmas round_eval = f32_lit_def f32_pack_def round24_def rne_div_def bitlen.simps Let_def

lemma f32_lit_hundredth: "f32_001 = Fin False hundredth"
  by (simp add: f32_001_def round_eval hundredth_def)

lemma hundredth_pos: "0 < hundredth"
  by (simp add: hundredth_def)

lemma centi_mono: "r \<le> r' \<Longrightarrow> centi r \<le> centi r'"
  unfolding centi_def by (rule round24_mono) simp_all

lemma centi_0 [simp]: "centi 0 = 0"
  by (simp add: centi_def round24_def rne_div_def)

lemma centi_close:
  assumes "r < 65536"
  shows "2 * \<bar>100 * int (centi r) - 2 ^ 149 * int r\<bar> < 2 ^ 149"
proof (cases "r = 0")
  case False
  have "(2::nat) ^ 23 \<le> hundredth" by (simp add: hundredth_def)
  then have big: "2 ^ 23 * 1 \<le> r * hundredth" using False by (metis mult_le_mono Suc_leI neq0_conv
        mult.commute One_nat_def)
  have "2 ^ 24 * \<bar>int 1 * int (centi r) - int (r * hundredth)\<bar> \<le> int (r * hundredth)"
    unfolding centi_def by (rule round24_err) (simp, rule big)
  then have e: "16777216 * \<bar>int (centi r) - int r * (10737418 * 2 ^ 119)\<bar> \<le> int r * (10737418 * 2 ^ 119)"
    by (simp add: hundredth_def)
  show ?thesis using e assms by simp
qed simp


lemma rne_div_centi: "r < 65536 \<Longrightarrow> rne_div (centi r * 100) (2 ^ 149) = r"
proof (rule rne_div_eqI)
  assume "r < 65536"
  from centi_close [OF this]
  show "2 * \<bar>int (centi r * 100) - int (2 ^ 149) * int r\<bar> < int (2 ^ 149)"
    by (simp only: of_nat_mult of_nat_power of_nat_numeral mult.commute [of _ "100 :: int"])
qed simp

lemma centi_bound: "r < 65536 \<Longrightarrow> centi r < 2 ^ 277"
proof -
  assume "r < 65536"
  from centi_close [OF this] \<open>r < 65536\<close> have "int (centi r) < 2 ^ 277" by simp
  then have "int (centi r) < int (2 ^ 277)" by (simp only: of_nat_power of_nat_numeral)
  then show ?thesis by (simp only: of_nat_less_iff)
qed

lemma f32_mul_hundredth:
  assumes "\<bar>i\<bar> < 65536"
  shows "f32_mul (f32_of_int i) f32_001 = Fin (i < 0) (centi (nat \<bar>i\<bar>))"
proof -
  have i: "\<bar>i\<bar> < 2 ^ 24" using assms by simp
  have "nat \<bar>i\<bar> * 2 ^ 149 * hundredth = (nat \<bar>i\<bar> * hundredth) * 2 ^ 149" by (simp only: ac_simps)
  moreover have "round24 (nat \<bar>i\<bar> * hundredth * 2 ^ 149) (1 * 2 ^ 149) = centi (nat \<bar>i\<bar>)"
    unfolding centi_def by (rule round24_cancel) simp
  ultimately have "round24 (nat \<bar>i\<bar> * 2 ^ 149 * hundredth) (2 ^ 149) = centi (nat \<bar>i\<bar>)"
    by (simp only: mult_1)
  moreover have "nat \<bar>i\<bar> < 65536" using assms by simp
  then have "\<not> 2 ^ 277 \<le> centi (nat \<bar>i\<bar>)" unfolding not_le by (rule centi_bound)
  ultimately show ?thesis
    unfolding f32_of_int_small [OF i] f32_lit_hundredth f32_mul.simps f32_pack_def
    by (simp only: if_False) simp
qed

text \<open>
  Comparing a product with a literal threshold is comparing the registers: the thresholds of
  the processor (6.5, 8.5, 45 and 5) are reached at exactly 650, 850, 4500 and 500.
\<close>

lemma centi_less_iff:
  assumes "centi (t - 1) < k" and "k \<le> centi t" and "0 < t"
  shows "centi r < k \<longleftrightarrow> r < t"
proof
  assume "centi r < k"
  with assms(2) have "\<not> centi t \<le> centi r" by simp
  then show "r < t" using centi_mono [of t r] by linarith
next
  assume "r < t"
  then have "centi r \<le> centi (t - 1)" by (intro centi_mono) simp
  with assms(1) show "centi r < k" by simp
qed

lemma centi_greater_iff:
  assumes "centi t \<le> k" and "k < centi (Suc t)"
  shows "k < centi r \<longleftrightarrow> t < r"
  using centi_less_iff [of "Suc t" "Suc k" r] assms by (simp add: not_less less_Suc_eq_le) linarith

lemma centi_thresholds:
  "f32_lit 65 10 = Fin False (13 * 2 ^ 148)" "f32_lit 85 10 = Fin False (17 * 2 ^ 148)"
  "f32_lit 45 1 = Fin False (45 * 2 ^ 149)" "f32_lit 5 1 = Fin False (5 * 2 ^ 149)"
  "f32_lit 2000 1 = Fin False (2000 * 2 ^ 149)" "f32_lit 0 1 = Fin False 0"
  by (simp_all add: round_eval)

lemma centi_lt_650: "centi r < 13 * 2 ^ 148 \<longleftrightarrow> r < 650"
  by (rule centi_less_iff) (simp_all add: centi_def hundredth_def round_eval)

lemma centi_gt_850: "17 * 2 ^ 148 < centi r \<longleftrightarrow> 850 < r"
  by (rule centi_greater_iff) (simp_all add: centi_def hundredth_def round_eval)

lemma centi_gt_4500: "45 * 2 ^ 149 < centi r \<longleftrightarrow> 4500 < r"
  by (rule centi_greater_iff) (simp_all add: centi_def hundredth_def round_eval)

lemma centi_gt_500: "5 * 2 ^ 149 < centi r \<longleftrightarrow> 500 < r"
  by (rule centi_greater_iff) (simp_all add: centi_def hundredth_def round_eval)

text \<open>\<^verbatim>\<open>%.2f\<close> of a scaled register prints its hundredths exactly.\<close>

lemma fmt_fixed_centi:
  "r < 65536 \<Longrightarrow> fmt_fixed 2 (Fin s (centi r)) = (if s then ''-'' else []) @ fmt_scaled 2 r"
  using rne_div_centi [of r] by simp

end
