(* ===== verification/Modbus_Selftest.thy ===== *)
theory Modbus_Selftest
  imports Modbus_Rtu C_Float
begin

section \<open>The built-in Modbus tests (\<^verbatim>\<open>app/src/modbus_rtu.c\<close>)\<close>

text \<open>
  \<^verbatim>\<open>modbus_run_sensor_tests\<close>, its frame builder and \<^verbatim>\<open>modbus_test_serial_read\<close>. Each of the eight
  tests is a definition on the shared buffers \<open>buf\<close> and \<open>values\<close> that gives the buffers afterwards
  and the outcome of its checks in order; the text they print on the way is left out.
\<close>

type_synonym test_state = "u8 list \<times> u16 list"

text \<open>The register loop of \<^verbatim>\<open>build_test_response\<close>.\<close>
fun store_regs :: "u8 list \<Rightarrow> nat \<Rightarrow> u16 list \<Rightarrow> u8 list" where
  "store_regs buf i [] = buf"
| "store_regs buf i (r # rs) =
     store_regs (buf[3 + i * 2 := hi8 r, 4 + i * 2 := lo8 r]) (Suc i) rs"

definition build_test_response :: "u8 list \<Rightarrow> u16 list \<Rightarrow> nat \<Rightarrow> u8 list \<times> int" where
  "build_test_response buf regs reg_count =
     (let byte_count = reg_count * 2;
          b1 = buf[0 := 1, 1 := MODBUS_FUNC_READ_HOLDING, 2 := of_nat byte_count];
          b2 = store_regs b1 0 (take reg_count regs);
          crc = modbus_crc16 (Some b2) (3 + int byte_count);
          b3 = b2[3 + byte_count := lo8 crc, 4 + byte_count := hi8 crc]
      in (b3, 5 + int byte_count))"

text \<open>The pass and fail counters after a list of checks.\<close>
definition tally :: "bool list \<Rightarrow> nat \<times> nat" where
  "tally cs = (length (filter id cs), length (filter Not cs))"

definition centi_f32 :: "u16 \<Rightarrow> f32" where
  "centi_f32 w = f32_mul (f32_of_int (uint w)) f32_001"

text \<open>Tests 1 to 5: a frame is built, parsed, and the registers compared.\<close>
definition parse_test :: "u16 list \<Rightarrow> (u16 list \<Rightarrow> bool list) \<Rightarrow> test_state \<Rightarrow> test_state \<times> bool list" where
  "parse_test regs checks st =
     (case build_test_response (fst st) regs 7 of (buf, len) \<Rightarrow>
        (case modbus_parse_response (Some buf) len (Some (snd st)) 16 of (count, vals) \<Rightarrow>
           ((buf, the vals), (count = 7) # (if count = 7 then checks (the vals) else []))))"

definition sensor_test1 :: "test_state \<Rightarrow> test_state \<times> bool list" where
  "sensor_test1 = parse_test [712, 2534, 320, 820, 0, 0, 1280]
     (\<lambda>v. [v ! 0 = 712, sint (v ! 1) = 2534, v ! 2 = 320, v ! 3 = 820, v ! 4 = 0, v ! 5 = 0, v ! 6 = 1280])"

definition sensor_test2 :: "test_state \<Rightarrow> test_state \<times> bool list" where
  "sensor_test2 = parse_test [0, 32767, 320, 820, 0x0003, 0, 2048]
     (\<lambda>v. [v ! 4 = 0x0003, v ! 0 = 0, v ! 5 = 0])"

definition sensor_test3 :: "test_state \<Rightarrow> test_state \<times> bool list" where
  "sensor_test3 = parse_test [450, 2500, 5000, 1500, 0, 0x0005, 3072]
     (\<lambda>v. [v ! 5 = 0x0005, f32_lt (centi_f32 (v ! 0)) (f32_lit 7 1),
           f32_gt (centi_f32 (v ! 2)) (f32_lit 10 1)])"

definition sensor_test4 :: "test_state \<Rightarrow> test_state \<times> bool list" where
  "sensor_test4 = parse_test [0, 0, 0, 0, 0, 0, 0] (\<lambda>v. map (\<lambda>i. v ! i = 0) [0..<7])"

definition sensor_test5 :: "test_state \<Rightarrow> test_state \<times> bool list" where
  "sensor_test5 = parse_test [0xFFFF, 0xFFFF, 0xFFFF, 0xFFFF, 0xFFFF, 0xFFFF, 0xFFFF]
     (\<lambda>v. [v ! 0 = 0xFFFF, v ! 1 = 0xFFFF, v ! 2 = 0xFFFF, v ! 3 = 0xFFFF, v ! 4 = 0xFFFF,
           v ! 5 = 0xFFFF, v ! 6 = 0xFFFF])"

text \<open>Tests 6 to 8: frames the parser must reject.\<close>
definition reject_test :: "u8 list \<Rightarrow> int \<Rightarrow> u16 list \<Rightarrow> test_state \<times> bool list" where
  "reject_test buf len v =
     (case modbus_parse_response (Some buf) len (Some v) 16 of (count, vals) \<Rightarrow>
        ((buf, the vals), [count < 0]))"

definition sensor_test6 :: "test_state \<Rightarrow> test_state \<times> bool list" where
  "sensor_test6 st =
     (let b1 = (fst st)[0 := 1, 1 := 0x83, 2 := 0x02];
          crc = modbus_crc16 (Some b1) 3
      in reject_test (b1[3 := lo8 crc, 4 := hi8 crc]) 5 (snd st))"

definition sensor_test7 :: "test_state \<Rightarrow> test_state \<times> bool list" where
  "sensor_test7 st =
     (case build_test_response (fst st) [712, 2534, 320, 820, 0, 0, 1280] 7 of (buf, len) \<Rightarrow>
        reject_test (buf[nat (len - 2) := 0, nat (len - 1) := 0]) len (snd st))"

definition sensor_test8 :: "test_state \<Rightarrow> test_state \<times> bool list" where
  "sensor_test8 st = reject_test ((fst st)[0 := 0x01, 1 := 0x03, 2 := 0x0E, 3 := 0x02]) 4 (snd st)"

text \<open>All eight in order: total passed and total failed.\<close>
fun run_sensor_tests :: "(test_state \<Rightarrow> test_state \<times> bool list) list \<Rightarrow> test_state \<Rightarrow> nat \<times> nat" where
  "run_sensor_tests [] st = (0, 0)"
| "run_sensor_tests (t # ts) st =
     (case t st of (st1, cs) \<Rightarrow>
        (case (tally cs, run_sensor_tests ts st1) of ((p, f), (tp, tf)) \<Rightarrow> (p + tp, f + tf)))"

definition modbus_run_sensor_tests :: "u8 list \<Rightarrow> u16 list \<Rightarrow> nat \<times> nat" where
  "modbus_run_sensor_tests buf values =
     run_sensor_tests [sensor_test1, sensor_test2, sensor_test3, sensor_test4, sensor_test5,
       sensor_test6, sensor_test7, sensor_test8] (buf, values)"

subsection \<open>The frame builder builds protocol frames\<close>

lemma store_regs_append:
  "length pre = 3 + 2 * i \<Longrightarrow> 2 * length rs \<le> length rest \<Longrightarrow>
     store_regs (pre @ rest) i rs = pre @ reg_bytes rs @ drop (2 * length rs) rest"
proof (induction rs arbitrary: i pre rest)
  case (Cons r rs)
  then obtain x y t where rest: "rest = x # y # t" by (cases rest; cases "tl rest") auto
  have "(pre @ rest)[3 + i * 2 := hi8 r, 4 + i * 2 := lo8 r] = (pre @ [hi8 r, lo8 r]) @ t"
    using Cons.prems(1) by (simp add: rest list_update_append)
  then show ?case
    using Cons.IH [of "pre @ [hi8 r, lo8 r]" "Suc i" t] Cons.prems by (simp add: rest reg_bytes_def)
qed (simp add: reg_bytes_def)

lemma build_test_response_frame:
  assumes "length buf = 256" and "length regs = 7"
  shows "build_test_response buf regs 7 = (read_response 1 regs @ drop 19 buf, 19)"
proof -
  obtain x y z t where buf: "buf = x # y # z # t" and t: "length t = 253"
    using assms(1) by (cases buf; cases "tl buf"; cases "tl (tl buf)") auto
  let ?h = "[1, 3, 14] :: u8 list"
  have s: "store_regs (?h @ t) 0 regs = ?h @ reg_bytes regs @ drop 14 t"
    using store_regs_append [of ?h 0 regs t] t assms(2) by simp
  have c: "modbus_crc16 (Some (?h @ reg_bytes regs @ drop 14 t)) 17 = crc_of (?h @ reg_bytes regs)"
    using assms(2) by (simp add: modbus_crc16_def)
  have "length (drop 14 t) = Suc (Suc 237)" using t by simp
  then obtain u w r where d: "drop 14 t = u # w # r" unfolding length_Suc_conv by blast
  have "drop 2 (drop 14 t) = drop 16 t" by (simp only: drop_drop) simp
  then have r: "r = drop 16 t" unfolding d by simp
  let ?c = "crc_of (?h @ reg_bytes regs)"
  have l: "length (?h @ reg_bytes regs) = 17" using assms(2) by simp
  have "((?h @ reg_bytes regs) @ u # w # r)[17 := lo8 ?c, 18 := hi8 ?c]
      = (?h @ reg_bytes regs) @ [lo8 ?c, hi8 ?c] @ r"
    using l by (simp add: list_update_append)
  then show ?thesis
    using s c assms(2) r
    by (simp add: build_test_response_def Let_def buf read_response_def with_crc_def d)
qed

lemma parse_test_outcome:
  assumes "length buf = 256" and "length v = 16" and "length regs = 7"
  shows "parse_test regs checks (buf, v)
    = ((read_response 1 regs @ drop 19 buf, regs @ drop 7 v), True # checks (regs @ drop 7 v))"
proof -
  let ?b = "read_response 1 regs @ drop 19 buf"
  have l: "length (read_response 1 regs) = 19" using assms(3) by (simp add: length_read_response)
  have "modbus_parse_response (Some ?b) (int 19) (Some v) 16
      = modbus_parse_response (Some (take 19 ?b)) (int 19) (Some v) 16"
    using l by (intro parse_take) simp
  also have "take 19 ?b = read_response 1 regs" using l by simp
  also have "modbus_parse_response (Some (read_response 1 regs)) (int 19) (Some v) 16 = (7, Some (regs @ drop 7 v))"
    using response_parses [of regs 16 v 1] assms l by simp
  finally show ?thesis
    unfolding parse_test_def prod.sel build_test_response_frame [OF assms(1,3)] by simp
qed

lemma reject_test_outcome:
  "fst (modbus_parse_response (Some buf) len (Some v) 16) < 0 \<Longrightarrow> snd (reject_test buf len v) = [True]"
  by (simp add: reject_test_def split_def)

lemma crc_bits_8:
  "crc_bits 8 c = crc_bit (crc_bit (crc_bit (crc_bit (crc_bit (crc_bit (crc_bit (crc_bit c)))))))"
  by (simp add: eval_nat_numeral)

lemma test7_body: "[1, 3, 14] @ reg_bytes [712, 2534, 320, 820, 0, 0, 1280] =
    [1, 3, 14, 2, 200, 9, 230, 1, 64, 3, 52, 0, 0, 0, 0, 5, 0]"
  by (simp add: reg_bytes_def hi8_def lo8_def)

lemma test7_body_crc: "crc_of ([1, 3, 14] @ reg_bytes [712, 2534, 320, 820, 0, 0, 1280]) \<noteq> 0"
  unfolding test7_body crc_of_def foldl.simps
  by (simp add: crc_byte_def crc_bits_8 crc_bit_def)


lemma zero_trailer_rejected:
  assumes "length buf = 256" and "length v = 16"
  shows "snd (sensor_test7 (buf, v)) = [True]"
proof -
  let ?regs = "[712, 2534, 320, 820, 0, 0, 1280] :: u16 list"
  let ?body = "[1, 3, 14] @ reg_bytes ?regs"
  let ?c = "crc_of ?body"
  have f: "build_test_response buf ?regs 7 = (read_response 1 ?regs @ drop 19 buf, 19)"
    by (rule build_test_response_frame) (simp_all add: assms)
  have l: "length ?body = 17" by simp
  have "read_response 1 ?regs = ?body @ [lo8 ?c, hi8 ?c]" by (simp add: read_response_def with_crc_def)
  then have u: "(read_response 1 ?regs @ drop 19 buf)[17 := 0, 18 := 0] = (?body @ [0, 0]) @ drop 19 buf"
    using l by (simp add: list_update_append)
  have "crc_of (?body @ [0, 0]) \<noteq> 0"
    unfolding crc_residue using test7_body_crc by (simp only: be16_def) simp
  then have "\<not> valid_response (?body @ [0, 0])" by (simp only: valid_response_def) blast
  then have "modbus_parse_response (Some (?body @ [0, 0])) (int 19) (Some v) 16 = (-1, Some v)"
    by (subst parse_eq) simp_all
  moreover have "take 19 ((?body @ [0, 0]) @ drop 19 buf) = ?body @ [0, 0]" by simp
  ultimately have "modbus_parse_response (Some ((?body @ [0, 0]) @ drop 19 buf)) (int 19) (Some v) 16 = (-1, Some v)"
    by (subst parse_take) (simp_all only: length_append, simp)
  then have "fst (modbus_parse_response (Some ((?body @ [0, 0]) @ drop 19 buf)) 19 (Some v) 16) < 0" by simp
  then show ?thesis
    unfolding sensor_test7_def prod.sel f prod.case
    by (intro reject_test_outcome) (use u in simp)
qed

lemma test3_floats:
  "f32_lt (centi_f32 450) (f32_lit 7 1)" "f32_gt (centi_f32 5000) (f32_lit 10 1)"
proof -
  have c: "centi_f32 450 = Fin False (centi 450)" "centi_f32 5000 = Fin False (centi 5000)"
    unfolding centi_f32_def by (subst f32_mul_hundredth; simp)+
  show "f32_lt (centi_f32 450) (f32_lit 7 1)" "f32_gt (centi_f32 5000) (f32_lit 10 1)"
    unfolding c by (simp_all add: centi_def hundredth_def round_eval)
qed


subsection \<open>The outcome of the tests\<close>

lemma parse_test_state:
  "length buf = 256 \<Longrightarrow> length v = 16 \<Longrightarrow> length regs = 7 \<Longrightarrow>
     \<exists>buf' v'. parse_test regs checks (buf, v) = ((buf', v'), True # checks (regs @ drop 7 v))
       \<and> length buf' = 256 \<and> length v' = 16"
  by (simp add: parse_test_outcome length_read_response)

lemma tally_simps [simp]:
  "tally [] = (0, 0)"
  "tally (True # cs) = (Suc (fst (tally cs)), snd (tally cs))"
  "tally (False # cs) = (fst (tally cs), Suc (snd (tally cs)))"
  by (simp_all add: tally_def)

text \<open>Run on buffers of the sizes of the code, a passing test leaves such buffers.\<close>
definition passes :: "nat \<Rightarrow> (test_state \<Rightarrow> test_state \<times> bool list) \<Rightarrow> bool" where
  "passes n t \<longleftrightarrow> (\<forall>st. length (fst st) = 256 \<and> length (snd st) = 16 \<longrightarrow>
     tally (snd (t st)) = (n, 0) \<and> length (fst (fst (t st))) = 256 \<and> length (snd (fst (t st))) = 16)"

lemma passes_parse_test:
  assumes "length regs = 7"
    and "\<And>v. tally (checks (regs @ v)) = (n, 0)"
  shows "passes (Suc n) (parse_test regs checks)"
  unfolding passes_def
proof (intro allI impI)
  fix st :: test_state
  assume "length (fst st) = 256 \<and> length (snd st) = 16"
  then show "tally (snd (parse_test regs checks st)) = (Suc n, 0)
      \<and> length (fst (fst (parse_test regs checks st))) = 256
      \<and> length (snd (fst (parse_test regs checks st))) = 16"
    using parse_test_outcome [of "fst st" "snd st" regs checks] assms
    by (simp add: length_read_response)
qed

lemma run_sensor_tests_pass:
  "list_all2 passes ns ts \<Longrightarrow> length (fst st) = 256 \<Longrightarrow> length (snd st) = 16 \<Longrightarrow>
     run_sensor_tests ts st = (sum_list ns, 0)"
proof (induction ns ts arbitrary: st rule: list_all2_induct)
  case (Cons n ns t ts)
  from Cons.hyps(1) Cons.prems have p: "tally (snd (t st)) = (n, 0)"
    and l: "length (fst (fst (t st))) = 256" "length (snd (fst (t st))) = 16"
    unfolding passes_def by blast+
  show ?case using Cons.IH [OF l] p by (simp add: split_def)
qed simp

lemma sensor_tests_1_5_pass:
  "passes 8 sensor_test1" "passes 4 sensor_test2" "passes 4 sensor_test3"
  "passes 8 sensor_test4" "passes 8 sensor_test5"
proof -
  have e: "(8::nat) = Suc 7" "(4::nat) = Suc 3" by simp_all
  show "passes 8 sensor_test1" "passes 4 sensor_test2" "passes 4 sensor_test3"
    "passes 8 sensor_test4" "passes 8 sensor_test5"
    unfolding e sensor_test1_def sensor_test2_def sensor_test3_def sensor_test4_def sensor_test5_def
    by (rule passes_parse_test; simp add: test3_floats upt_rec del: One_nat_def)+
qed

lemma reject_parts: "fst (fst (reject_test buf len v)) = buf"
  "snd (fst (reject_test buf len v)) = the (snd (modbus_parse_response (Some buf) len (Some v) 16))"
  by (simp_all add: reject_test_def split_def)

lemma parse_keeps_length:
  "length (the (snd (modbus_parse_response (Some b) len (Some v) m))) = length v"
  by (simp add: modbus_parse_response_def Let_def)


lemma sensor_tests_6_8_pass:
  "passes 1 sensor_test6" "passes 1 sensor_test7" "passes 1 sensor_test8"
proof -
  have one: "tally [True] = (1, 0)" by simp
  show "passes 1 sensor_test6"
    unfolding passes_def
  proof (intro allI impI)
    fix st :: test_state
    assume st: "length (fst st) = 256 \<and> length (snd st) = 16"
    then obtain a b c d e r where buf: "fst st = a # b # c # d # e # r"
      by (auto simp: length_Suc_conv numeral_eq_Suc)
    have p: "fst (modbus_parse_response (Some (1 # 0x83 # x)) 5 (Some v) 16) < 0" for x v
      by (simp add: modbus_parse_response_def)
    have "snd (sensor_test6 st) = [True]"
      unfolding sensor_test6_def buf Let_def by (intro reject_test_outcome) (simp add: p)
    then show "tally (snd (sensor_test6 st)) = (1, 0)
      \<and> length (fst (fst (sensor_test6 st))) = 256 \<and> length (snd (fst (sensor_test6 st))) = 16"
      using st one by (simp add: sensor_test6_def reject_parts parse_keeps_length Let_def)
  qed
  show "passes 1 sensor_test7"
    unfolding passes_def
  proof (intro allI impI)
    fix st :: test_state
    assume st: "length (fst st) = 256 \<and> length (snd st) = 16"
    then show "tally (snd (sensor_test7 st)) = (1, 0)
      \<and> length (fst (fst (sensor_test7 st))) = 256 \<and> length (snd (fst (sensor_test7 st))) = 16"
      using zero_trailer_rejected [of "fst st" "snd st"] one
      by (simp add: sensor_test7_def build_test_response_frame reject_parts parse_keeps_length
          length_read_response)
  qed
  show "passes 1 sensor_test8"
    unfolding passes_def
  proof (intro allI impI)
    fix st :: test_state
    assume st: "length (fst st) = 256 \<and> length (snd st) = 16"
    have "snd (sensor_test8 st) = [True]"
      unfolding sensor_test8_def by (intro reject_test_outcome) (simp add: modbus_parse_response_def)
    then show "tally (snd (sensor_test8 st)) = (1, 0)
      \<and> length (fst (fst (sensor_test8 st))) = 256 \<and> length (snd (fst (sensor_test8 st))) = 16"
      using st one by (simp add: sensor_test8_def reject_parts parse_keeps_length)
  qed
qed

text \<open>
  Property C39. The self-test of the Modbus layer passes: whatever its two uninitialised buffers
  hold, all 35 checks of its eight tests (decoding, faults, thresholds, both extremes, an
  exception response, a corrupted CRC, a short frame) succeed, so the totals it prints are 35
  passed and 0 failed.
\<close>
theorem modbus_sensor_tests_pass:
  assumes "length buf = 256" and "length values = 16"
  shows "modbus_run_sensor_tests buf values = (35, 0)"
proof -
  have "list_all2 passes [8, 4, 4, 8, 8, 1, 1, 1] [sensor_test1, sensor_test2, sensor_test3,
      sensor_test4, sensor_test5, sensor_test6, sensor_test7, sensor_test8]"
    using sensor_tests_1_5_pass sensor_tests_6_8_pass by simp
  from run_sensor_tests_pass [OF this, of "(buf, values)"] assms show ?thesis
    by (simp add: modbus_run_sensor_tests_def)
qed

theorem modbus_sensor_tests_pass_witness:
  "modbus_run_sensor_tests (replicate 256 0xAA) (replicate 16 0x1234) = (35, 0)"
  by (rule modbus_sensor_tests_pass) simp_all


subsection \<open>The read test on the serial line\<close>

text \<open>\<^verbatim>\<open>%04X\<close> of a 16-bit value.\<close>
definition fmt_04X :: "u16 \<Rightarrow> string" where
  "fmt_04X w = fmt_02X (hi8 w) @ fmt_02X (lo8 w)"

definition register_line :: "u16 list \<Rightarrow> nat \<Rightarrow> string" where
  "register_line values i =
     ''    reg[0x'' @ fmt_04X (of_nat i) @ ''] = '' @ fmt_nat (unat (values ! i)) @
     '' (0x'' @ fmt_04X (values ! i) @ '')''"

definition water_quality_lines :: "u16 list \<Rightarrow> string list" where
  "water_quality_lines v =
     [''  water quality: pH='' @ fmt_fixed 2 (f32_mul (f32_of_int (uint (v ! 0))) f32_001) @
      ''  temp='' @ fmt_fixed 2 (f32_mul (f32_of_int (sint (v ! 1))) f32_001) @
      '' C  turb='' @ fmt_fixed 2 (f32_mul (f32_of_int (uint (v ! 2))) f32_001) @
      '' NTU  cond='' @ fmt_nat (unat (v ! 3)) @ '' us/cm'',
      ''  status=0x'' @ fmt_04X (v ! 4) @ ''  alarm=0x'' @ fmt_04X (v ! 5) @
      ''  seq='' @ fmt_nat (unat (v ! 6))]"

text \<open>
  The lines printed and, when there was no answer, the totals of the tests it falls back to.
  \<open>buf\<close> and \<open>tvalues\<close> are the uninitialised buffers of those tests.
\<close>
definition modbus_test_serial_read ::
    "bus_env \<Rightarrow> int \<Rightarrow> u16 list \<Rightarrow> u8 list \<Rightarrow> u16 list \<Rightarrow> (string list \<times> (nat \<times> nat) option) option" where
  "modbus_test_serial_read env fd values buf tvalues =
     (let head = [''--- Serial Modbus Read Test ---'', ''  requesting 7 registers from slave 0x01...'']
      in (case modbus_read_registers env fd 1 0 7 (Some values) 16 1000 of
            None \<Rightarrow> None
          | Some r \<Rightarrow>
              (let count = res_code r; v = the (res_values r); shown = head @ res_stdout r
               in if count > 0
                  then Some (shown @ [''  success: '' @ fmt_int count @ '' registers read''] @
                         map (register_line v) [0..<nat count] @
                         (if count \<ge> 7 then water_quality_lines v else []), None)
                  else Some (shown @ [''  no slave response (expected if no device connected)'',
                                      ''  falling back to simulation tests...''],
                         Some (modbus_run_sensor_tests buf tvalues)))))"

lemma water_quality_exact:
  "water_quality_lines v ! 0 =
     ''  water quality: pH='' @ fmt_scaled 2 (unat (v ! 0)) @
     ''  temp='' @ (if sint (v ! 1) < 0 then ''-'' else []) @ fmt_scaled 2 (nat \<bar>sint (v ! 1)\<bar>) @
     '' C  turb='' @ fmt_scaled 2 (unat (v ! 2)) @ '' NTU  cond='' @ fmt_nat (unat (v ! 3)) @ '' us/cm''"
proof -
  have u: "fmt_fixed 2 (f32_mul (f32_of_int (uint w)) f32_001) = fmt_scaled 2 (unat w)" for w :: u16
  proof -
    have "\<bar>uint w\<bar> < 65536" using uint_lt2p [of w] by simp
    moreover have "unat w < 65536" using unsigned_less [where 'b = 16, of w] by simp
    ultimately show ?thesis
      using uint_ge_0 [of w] by (simp only: f32_mul_hundredth) (simp add: fmt_fixed_centi not_less del: fmt_fixed.simps)
  qed
  have s: "\<bar>sint w\<bar> < 65536" for w :: u16
    using sint_ge [of w] sint_lt [of w] by simp
  then have n: "nat \<bar>sint w\<bar> < 65536" for w :: u16 by (simp add: nat_less_iff)
  show ?thesis
    unfolding water_quality_lines_def u f32_mul_hundredth [OF s] fmt_fixed_centi [OF n] by simp
qed

end
