(* ===== verification/Gateway_Args.thy ===== *)
theory Gateway_Args
  imports Gw_Prelude
begin

section \<open>The command line (\<^verbatim>\<open>app/src/main.c\<close>)\<close>

text \<open>
  The argument loop of \<^verbatim>\<open>main\<close> on the arguments after the program name: it ends with an exit code
  and what was printed, or with the path of the configuration and the number of test iterations
  (0 for the gateway itself).
\<close>

definition DEFAULT_CONFIG_PATH :: string where
  "DEFAULT_CONFIG_PATH = ''../config/gateway.conf''"

definition WATER_GATEWAY_VERSION :: string where
  "WATER_GATEWAY_VERSION = ''0.4.0''"

definition DEFAULT_TEST_ITERATIONS :: int where
  "DEFAULT_TEST_ITERATIONS = 10"

text \<open>The lines printed.\<close>
definition print_usage :: "string \<Rightarrow> string list" where
  "print_usage program =
     [''Usage: '' @ program @ '' [options]'',
      ''  -c, --config <path>  config file path (default: '' @ DEFAULT_CONFIG_PATH @ '')'',
      ''  -h, --help           show help'',
      ''  -v, --version        show version'',
      ''  --test [N]           run thread pipeline test with N mock samples (default: ''
         @ fmt_int DEFAULT_TEST_ITERATIONS @ '')'']"

text \<open>\<^verbatim>\<open>strtol\<close> must convert something and stop at the end of the string.\<close>
definition str_to_int :: "string option \<Rightarrow> int \<Rightarrow> int" where
  "str_to_int str default_val =
     (case str of None \<Rightarrow> default_val
      | Some s \<Rightarrow> (case strtol10 s of None \<Rightarrow> default_val
                  | Some (val, rest) \<Rightarrow> if rest \<noteq> [] then default_val else val))"

text \<open>Exit code, lines on standard output, lines on standard error; or the settings to run with.\<close>
datatype cli = Cli_exit int "string list" "string list" | Cli_run string int

fun parse_args :: "string \<Rightarrow> string list \<Rightarrow> string \<Rightarrow> int \<Rightarrow> cli" where
  "parse_args program [] config_path test_iterations = Cli_run config_path test_iterations"
| "parse_args program (a # as) config_path test_iterations =
     (if a = ''-c'' \<or> a = ''--config'' then
        (case as of [] \<Rightarrow> Cli_exit 1 [] [''missing config path after '' @ a]
         | p # rest \<Rightarrow> parse_args program rest p test_iterations)
      else if a = ''-h'' \<or> a = ''--help'' then Cli_exit 0 (print_usage program) []
      else if a = ''-v'' \<or> a = ''--version'' then
        Cli_exit 0 [''water_gateway version '' @ WATER_GATEWAY_VERSION] []
      else if a = ''--test'' then
        (if as \<noteq> [] \<and> (hd as = [] \<or> hd (hd as) \<noteq> CHR ''-'')
         then parse_args program (tl as) config_path (str_to_int (Some (hd as)) DEFAULT_TEST_ITERATIONS)
         else parse_args program as config_path DEFAULT_TEST_ITERATIONS)
      else Cli_exit 1 (print_usage program) [''unknown argument: '' @ a])"

declare parse_args.simps [simp del]

subsection \<open>The options and their text\<close>

text \<open>The options a user can give before the gateway runs, and how they are written.\<close>

datatype cli_opt = Config string | Test "int option"

primrec opt_text :: "cli_opt \<Rightarrow> string list" where
  "opt_text (Config p) = [''--config'', p]"
| "opt_text (Test n) = ''--test'' # (case n of None \<Rightarrow> [] | Some i \<Rightarrow> [fmt_int i])"

primrec opt_ok :: "cli_opt \<Rightarrow> bool" where
  "opt_ok (Config p) = True"
| "opt_ok (Test n) = (case n of None \<Rightarrow> True | Some i \<Rightarrow> 0 \<le> i \<and> is_c_int i)"

text \<open>The last option of each kind wins.\<close>

primrec opt_effect :: "cli_opt \<Rightarrow> string \<times> int \<Rightarrow> string \<times> int" where
  "opt_effect (Config p) s = (p, snd s)"
| "opt_effect (Test n) s = (fst s, (case n of None \<Rightarrow> DEFAULT_TEST_ITERATIONS | Some i \<Rightarrow> i))"

definition opts_text :: "cli_opt list \<Rightarrow> string list" where
  "opts_text opts = concat (map opt_text opts)"

definition starts_option :: "string list \<Rightarrow> bool" where
  "starts_option as \<longleftrightarrow> as = [] \<or> (\<exists>cs rest. as = (CHR ''-'' # cs) # rest)"

lemma starts_option_opts: "starts_option rest \<Longrightarrow> starts_option (opts_text opts @ rest)"
proof (cases opts)
  case (Cons x xs)
  then show ?thesis by (cases x) (simp_all add: opts_text_def starts_option_def)
qed (simp add: opts_text_def)

lemma str_to_int_fmt: "is_c_int i \<Longrightarrow> str_to_int (Some (fmt_int i)) d = i"
  using strtol10_fmt_int [of i "[]"] by (simp add: str_to_int_def)

lemma fmt_int_no_option: "0 \<le> i \<Longrightarrow> fmt_int i = [] \<or> hd (fmt_int i) \<noteq> CHR ''-''"
  using hd_fmt_nat_isdigit [of "nat i"] by (auto simp: fmt_int_def isdigit_def)

lemma parse_opt:
  assumes "opt_ok x" and "starts_option as"
  shows "parse_args program (opt_text x @ as) path n
    = parse_args program as (fst (opt_effect x (path, n))) (snd (opt_effect x (path, n)))"
proof (cases x)
  case (Config p)
  then show ?thesis by (simp add: parse_args.simps)
next
  case (Test m)
  show ?thesis
  proof (cases m)
    case None
    then show ?thesis
      using Test assms(2) by (auto simp: starts_option_def parse_args.simps(2) [of _ "''--test''"])
  next
    case (Some i)
    then show ?thesis
      using Test assms(1) fmt_int_no_option [of i]
      by (simp add: str_to_int_fmt parse_args.simps(2) [of _ "''--test''"])
  qed
qed

lemma parse_opts:
  "list_all opt_ok opts \<Longrightarrow> starts_option as \<Longrightarrow>
     parse_args program (opts_text opts @ as) path n
     = parse_args program as (fst (fold opt_effect opts (path, n))) (snd (fold opt_effect opts (path, n)))"
proof (induction opts arbitrary: path n)
  case (Cons x xs)
  have "parse_args program (opts_text (x # xs) @ as) path n
      = parse_args program (opt_text x @ (opts_text xs @ as)) path n" by (simp add: opts_text_def)
  also have "\<dots> = parse_args program (opts_text xs @ as) (fst (opt_effect x (path, n))) (snd (opt_effect x (path, n)))"
    using Cons.prems starts_option_opts by (intro parse_opt) simp_all
  finally show ?case using Cons by simp
qed (simp add: opts_text_def)

text \<open>
  Property C29. Round trip of the command line: options written out in any number and order are
  read back, the last of each kind winning. What follows them decides the rest: help and version
  exit with 0 and ignore everything behind them, a path that is missing or any other argument
  that starts with a dash exits with 1.
\<close>
theorem parse_args_roundtrip:
  assumes "list_all opt_ok opts"
    and "CHR ''-'' # u \<notin> {''-c'', ''--config'', ''-h'', ''--help'', ''-v'', ''--version'', ''--test''}"
  shows "(case fold opt_effect opts (path, n) of (path', n') \<Rightarrow>
        parse_args program (opts_text opts) path n = Cli_run path' n')
    \<and> parse_args program (opts_text opts @ ''-h'' # more) path n = Cli_exit 0 (print_usage program) []
    \<and> parse_args program (opts_text opts @ ''--version'' # more) path n
        = Cli_exit 0 [''water_gateway version 0.4.0''] []
    \<and> parse_args program (opts_text opts @ [''-c'']) path n
        = Cli_exit 1 [] [''missing config path after -c'']
    \<and> parse_args program (opts_text opts @ (CHR ''-'' # u) # more) path n
        = Cli_exit 1 (print_usage program) [''unknown argument: -'' @ u]"
proof -
  let ?p = "fst (fold opt_effect opts (path, n))" and ?n = "snd (fold opt_effect opts (path, n))"
  have e: "parse_args program (opts_text opts @ as) path n = parse_args program as ?p ?n"
    if "starts_option as" for as
    by (rule parse_opts [OF assms(1) that])
  have s: "starts_option ((CHR ''-'' # v) # w)" "starts_option []" for v w by (simp_all add: starts_option_def)
  have "parse_args program (opts_text opts @ []) path n = Cli_run ?p ?n"
    unfolding e [OF s(2)] by (simp add: parse_args.simps(1))
  moreover have "parse_args program (opts_text opts @ (CHR ''-'' # u) # more) path n
      = Cli_exit 1 (print_usage program) [''unknown argument: -'' @ u]"
    unfolding e [OF s(1)] using assms(2) by (simp add: parse_args.simps(2))
  moreover have "parse_args program (opts_text opts @ ''-h'' # more) path n = Cli_exit 0 (print_usage program) []"
    unfolding e [OF s(1), of "''h''" more] by (simp add: parse_args.simps(2))
  moreover have "parse_args program (opts_text opts @ ''--version'' # more) path n
      = Cli_exit 0 [''water_gateway version 0.4.0''] []"
    unfolding e [OF s(1), of "''-version''" more]
    by (simp add: parse_args.simps(2) WATER_GATEWAY_VERSION_def)
  moreover have "parse_args program (opts_text opts @ [''-c'']) path n
      = Cli_exit 1 [] [''missing config path after -c'']"
    unfolding e [OF s(1), of "''c''" "[]"] by (simp add: parse_args.simps(2))
  ultimately show ?thesis by (simp add: split_def)
qed

theorem parse_args_roundtrip_witness:
  "parse_args ''gw'' [''--config'', ''a'', ''--test'', ''7'', ''--config'', ''b''] '''' 0 = Cli_run ''b'' 7"
proof -
  have t: "fmt_int 7 = ''7''" by code_simp
  have "list_all opt_ok [Config ''a'', Test (Some 7), Config ''b'']" by (simp add: is_c_int_def)
  from parse_args_roundtrip [OF this, where u = "''x''" and path = "''''" and n = 0 and program = "''gw''"] t
  show ?thesis by (simp add: opts_text_def)
qed

end
