(* ===== verification/Sample.thy ===== *)
theory Sample
  imports C_Float
begin

section \<open>Samples (\<^verbatim>\<open>app/src/sample.c\<close>)\<close>

text \<open>
  \<^verbatim>\<open>water_sample_t\<close>, the value every thread of the pipeline passes on: how it is initialised,
  generated as mock data, decoded from the seven Modbus registers, and printed. The wall clock
  (\<^verbatim>\<open>gettimeofday\<close>) and the static counter \<^verbatim>\<open>g_mock_sequence\<close> are explicit arguments and results;
  a pointer that the code compares with NULL is an option.
\<close>

record water_sample =
  timestamp_ms :: int
  ph :: f32
  temperature :: f32
  turbidity :: f32
  conductivity :: f32
  sensor_status :: u32
  alarm_status :: u32
  sequence :: u32

type_synonym timeval = "int \<times> int" \<comment> \<open>\<^verbatim>\<open>tv_sec\<close> and \<^verbatim>\<open>tv_usec\<close>\<close>

definition sample_now_ms :: "timeval \<Rightarrow> int" where
  "sample_now_ms tv = fst tv * 1000 + c_div (snd tv) 1000"

definition zero_sample :: water_sample where
  "zero_sample = \<lparr>timestamp_ms = 0, ph = Fin False 0, temperature = Fin False 0,
     turbidity = Fin False 0, conductivity = Fin False 0,
     sensor_status = 0, alarm_status = 0, sequence = 0\<rparr>"

definition sample_init :: "timeval \<Rightarrow> water_sample option \<Rightarrow> water_sample option" where
  "sample_init now p =
     (case p of None \<Rightarrow> None
      | Some _ \<Rightarrow> Some (zero_sample\<lparr>timestamp_ms := sample_now_ms now\<rparr>))"

text \<open>The first component of the result is the new value of \<^verbatim>\<open>g_mock_sequence\<close>.\<close>
definition sample_generate_mock ::
    "timeval \<Rightarrow> u32 \<Rightarrow> water_sample option \<Rightarrow> u32 \<times> water_sample option" where
  "sample_generate_mock now g p =
     (case p of None \<Rightarrow> (g, None)
      | Some _ \<Rightarrow>
          (let seq = g + 1
           in (seq, Some \<lparr>timestamp_ms = sample_now_ms now,
                ph = f32_add (f32_lit 7 1)
                       (f32_mul (f32_of_int (uint (seq mod 20))) f32_001),
                temperature = f32_add (f32_lit 25 1)
                       (f32_mul (f32_of_int (uint (seq mod 50))) f32_001),
                turbidity = f32_add (f32_lit 3 1)
                       (f32_mul (f32_of_int (uint (seq mod 30))) f32_001),
                conductivity = f32_add (f32_lit 800 1) (f32_of_int (uint (seq mod 40))),
                sensor_status = 0, alarm_status = 0, sequence = seq\<rparr>)))"

definition sample_from_modbus_regs ::
    "timeval \<Rightarrow> water_sample option \<Rightarrow> u16 list option \<Rightarrow> int \<Rightarrow> water_sample option" where
  "sample_from_modbus_regs now p regs reg_count =
     (case (p, regs) of
        (Some s, Some r) \<Rightarrow>
          if reg_count < 7 then Some s
          else Some \<lparr>timestamp_ms = sample_now_ms now,
                ph = f32_mul (f32_of_int (uint (r ! 0))) f32_001,
                temperature = f32_mul (f32_of_int (sint (r ! 1))) f32_001,
                turbidity = f32_mul (f32_of_int (uint (r ! 2))) f32_001,
                conductivity = f32_of_int (uint (r ! 3)),
                sensor_status = ucast (r ! 4),
                alarm_status = ucast (r ! 5),
                sequence = ucast (r ! 6)\<rparr>
      | _ \<Rightarrow> p)"

definition sample_line :: "water_sample \<Rightarrow> string" where
  "sample_line s =
     ''timestamp_ms='' @ fmt_int (timestamp_ms s) @
     '' ph='' @ fmt_fixed 2 (ph s) @
     '' temperature='' @ fmt_fixed 2 (temperature s) @
     '' turbidity='' @ fmt_fixed 2 (turbidity s) @
     '' conductivity='' @ fmt_fixed 2 (conductivity s) @
     '' sensor_status=0x'' @ fmt_hex (unat (sensor_status s)) @
     '' alarm_status=0x'' @ fmt_hex (unat (alarm_status s)) @
     '' seq='' @ fmt_nat (unat (sequence s))"

text \<open>The text left in \<open>buf\<close> and the returned length; \<open>None\<close> leaves the buffer alone.\<close>
definition sample_to_string ::
    "water_sample option \<Rightarrow> string option \<Rightarrow> nat \<Rightarrow> string option \<times> int" where
  "sample_to_string s buf buf_size =
     (case (s, buf) of
        (Some x, Some _) \<Rightarrow>
          if buf_size = 0 then (buf, -1)
          else (case snprintf buf_size (sample_line x) of (txt, n) \<Rightarrow> (Some txt, n))
      | _ \<Rightarrow> (buf, -1))"

subsection \<open>Decoding registers\<close>

text \<open>Every field of a sample holds a proper single-precision value.\<close>
definition sample_ok :: "water_sample \<Rightarrow> bool" where
  "sample_ok s \<longleftrightarrow> is_f32 (ph s) \<and> is_f32 (temperature s) \<and> is_f32 (turbidity s)
     \<and> is_f32 (conductivity s)"

lemma sample_ok_regs:
  "7 \<le> n \<Longrightarrow> \<exists>t. sample_from_modbus_regs now (Some s) (Some r) n = Some t \<and> sample_ok t"
  by (simp add: sample_from_modbus_regs_def sample_ok_def is_f32_mul is_f32_of_int)

lemma sample_ok_mock: "\<exists>t. snd (sample_generate_mock now g (Some s)) = Some t \<and> sample_ok t"
  by (simp add: sample_generate_mock_def sample_ok_def is_f32_add Let_def)

lemma uint_u16_bound: "\<bar>uint (w :: u16)\<bar> < 65536"
  using uint_lt2p [of w] by simp

lemma sint_u16_bound: "\<bar>sint (w :: u16)\<bar> < 65536"
  using sint_range_size [of w] by (auto simp: word_size)

lemma f32_centi_unsigned:
  "f32_mul (f32_of_int (uint (w :: u16))) f32_001 = Fin False (centi (unat w))"
  using f32_mul_hundredth [OF uint_u16_bound, of w] by (simp add: not_less)

lemma f32_centi_signed:
  "f32_mul (f32_of_int (sint (w :: u16))) f32_001 = Fin (sint w < 0) (centi (nat \<bar>sint w\<bar>))"
  by (rule f32_mul_hundredth) (rule sint_u16_bound)

lemma f32_of_u16: "f32_of_int (uint (w :: u16)) = Fin False (unat w * 2 ^ 149)"
proof -
  have "\<bar>uint w\<bar> < 2 ^ 24" using uint_u16_bound [of w] by simp
  from f32_of_int_small [OF this] show ?thesis by (simp add: not_less)
qed

lemma sample_from_regs_fields:
  assumes "7 \<le> n" and "sample_from_modbus_regs now (Some s) (Some r) n = Some t"
  shows "ph t = Fin False (centi (unat (r ! 0)))"
    and "temperature t = Fin (sint (r ! 1) < 0) (centi (nat \<bar>sint (r ! 1)\<bar>))"
    and "turbidity t = Fin False (centi (unat (r ! 2)))"
    and "conductivity t = Fin False (unat (r ! 3) * 2 ^ 149)"
    and "sensor_status t = ucast (r ! 4)" and "alarm_status t = ucast (r ! 5)"
    and "sequence t = ucast (r ! 6)" and "timestamp_ms t = sample_now_ms now"
  using assms
  by (auto simp: sample_from_modbus_regs_def f32_centi_unsigned f32_centi_signed
      f32_of_u16 [of "r ! 3"])

text \<open>
  Property C37. Decoding the seven registers of the slave loses nothing that the gateway
  prints: \<^verbatim>\<open>%.2f\<close> of the decoded pH, temperature and turbidity shows exactly the register
  value in hundredths (the temperature register read as a signed 16-bit number), although the
  multiplication by \<^verbatim>\<open>0.01f\<close> rounds; the status words are the registers, zero-extended.
\<close>
theorem sample_from_modbus_regs_exact:
  assumes "7 \<le> n" and "sample_from_modbus_regs now (Some s) (Some r) n = Some t"
  shows "fmt_fixed 2 (ph t) = fmt_scaled 2 (unat (r ! 0))
    \<and> fmt_fixed 2 (temperature t) =
        (if sint (r ! 1) < 0 then ''-'' else []) @ fmt_scaled 2 (nat \<bar>sint (r ! 1)\<bar>)
    \<and> fmt_fixed 2 (turbidity t) = fmt_scaled 2 (unat (r ! 2))
    \<and> f32_to_int (conductivity t) = Some (uint (r ! 3))
    \<and> unat (sensor_status t) = unat (r ! 4) \<and> unat (alarm_status t) = unat (r ! 5)
    \<and> unat (sequence t) = unat (r ! 6)"
proof -
  note f = sample_from_regs_fields [OF assms]
  have b: "unat w < 65536" for w :: u16 using unsigned_less [of w, where ?'a = nat] by simp
  have c: "nat \<bar>sint w\<bar> < 65536" for w :: u16 using sint_u16_bound [of w] by simp
  have u: "unat (ucast w :: u32) = unat w" for w :: u16 using b [of w] by (simp add: unsigned_ucast_eq take_bit_nat_eq_self_iff)
  have i: "is_c_int (uint w)" for w :: u16 using uint_u16_bound [of w] order_trans [OF _ uint_ge_0, of INT_MIN w] by (simp add: is_c_int_def)
  show ?thesis
    unfolding f
    by (intro conjI) (simp_all only: fmt_fixed_centi [OF b] fmt_fixed_centi [OF c] u,
        simp_all add: i Let_def)
qed

theorem sample_from_modbus_regs_exact_witness:
  "\<exists>t. sample_from_modbus_regs (0, 0) (Some zero_sample)
         (Some [712, 2534, 320, 820, 0, 0, 1280]) 7 = Some t
     \<and> fmt_fixed 2 (ph t) = fmt_scaled 2 712"
proof -
  obtain t where t: "sample_from_modbus_regs (0, 0) (Some zero_sample)
         (Some [712, 2534, 320, 820, 0, 0, 1280]) 7 = Some t"
    by (simp add: sample_from_modbus_regs_def)
  from sample_from_modbus_regs_exact [OF _ this] t show ?thesis by simp
qed

end
