(* ===== verification/Sample_Queue.thy ===== *)
theory Sample_Queue
  imports Sample "HOL-Library.Sublist"
begin

section \<open>The bounded queue between two threads (\<^verbatim>\<open>app/src/sample_queue.c\<close>)\<close>

text \<open>
  The ring buffer, its two blocking operations and its counters. An operation runs under the
  mutex of the queue, so it is one step of the queue's state except where it waits on a
  condition variable: there the other threads run. A wake-up is therefore an input of the
  operation: the queue as it is found when the mutex has been taken again, and whether
  \<^verbatim>\<open>pthread_cond_timedwait\<close> returned \<^verbatim>\<open>ETIMEDOUT\<close>. The result is \<open>None\<close> as long as the operation is
  still waiting after the wake-ups given.
\<close>

record sample_queue =
  q_samples :: "water_sample list"
  q_capacity :: nat
  q_head :: nat
  q_tail :: nat
  q_count :: nat
  q_shutdown :: bool
  q_overflow_count :: ulong
  q_push_count :: ulong
  q_pop_count :: ulong

text \<open>What \<^verbatim>\<open>malloc\<close> and \<^verbatim>\<open>pthread\<close> have handed out: live blocks, live mutexes and conditions.\<close>
record resources =
  live_blocks :: int
  live_sync :: int

text \<open>One wake-up of a wait: the queue then, and whether the wait timed out.\<close>
type_synonym wakeup = "sample_queue \<times> bool"

subsection \<open>Creation and destruction\<close>

text \<open>The two booleans say whether the first and the second \<^verbatim>\<open>calloc\<close> succeed.\<close>
definition sample_queue_create ::
    "bool \<Rightarrow> bool \<Rightarrow> int \<Rightarrow> resources \<Rightarrow> sample_queue option \<times> resources" where
  "sample_queue_create alloc_q alloc_samples capacity res =
     (if capacity \<le> 0 then (None, res)
      else if \<not> alloc_q then (None, res)
      else
        (let res1 = res\<lparr>live_blocks := live_blocks res + 1\<rparr>
         in if \<not> alloc_samples then (None, res1\<lparr>live_blocks := live_blocks res1 - 1\<rparr>)
            else
              (Some \<lparr>q_samples = replicate (nat capacity) zero_sample,
                     q_capacity = nat capacity, q_head = 0, q_tail = 0, q_count = 0,
                     q_shutdown = False, q_overflow_count = 0, q_push_count = 0,
                     q_pop_count = 0\<rparr>,
               res1\<lparr>live_blocks := live_blocks res1 + 1, live_sync := live_sync res1 + 3\<rparr>)))"

definition sample_queue_destroy :: "sample_queue option \<Rightarrow> resources \<Rightarrow> resources" where
  "sample_queue_destroy q res =
     (case q of None \<Rightarrow> res
      | Some _ \<Rightarrow> res\<lparr>live_blocks := live_blocks res - 2, live_sync := live_sync res - 3\<rparr>)"

subsection \<open>Deadlines\<close>

text \<open>\<^verbatim>\<open>timespec_add_ms\<close>: the absolute deadline of a wait, as seconds and nanoseconds.\<close>
definition timespec_add_ms :: "timeval \<Rightarrow> int \<Rightarrow> int \<times> int" where
  "timespec_add_ms tv timeout_ms =
     (let sec = fst tv + c_div (snd tv) 1000000 + c_div timeout_ms 1000;
          nsec = c_mod (snd tv) 1000000 * 1000 + c_mod timeout_ms 1000 * 1000000
      in if nsec \<ge> 1000000000 then (sec + 1, nsec - 1000000000) else (sec, nsec))"

subsection \<open>Push\<close>

text \<open>The wait loop of \<^verbatim>\<open>sample_queue_push\<close>.\<close>
fun push_wait :: "sample_queue \<Rightarrow> int \<Rightarrow> wakeup list \<Rightarrow> sample_queue option" where
  "push_wait q timeout_ms [] =
     (if q_count q \<ge> q_capacity q \<and> \<not> q_shutdown q then
        (if timeout_ms \<le> 0 then Some q else None)
      else Some q)"
| "push_wait q timeout_ms ((q', timedout) # ws) =
     (if q_count q \<ge> q_capacity q \<and> \<not> q_shutdown q then
        (if timeout_ms \<le> 0 then Some q
         else if timedout then Some q' else push_wait q' timeout_ms ws)
      else Some q)"

definition drop_oldest :: "sample_queue \<Rightarrow> sample_queue" where
  "drop_oldest q = q\<lparr>q_tail := (q_tail q + 1) mod q_capacity q, q_count := q_count q - 1,
     q_overflow_count := q_overflow_count q + 1\<rparr>"

definition append_sample :: "sample_queue \<Rightarrow> water_sample \<Rightarrow> sample_queue" where
  "append_sample q s = q\<lparr>q_samples := (q_samples q)[q_head q := s],
     q_head := (q_head q + 1) mod q_capacity q, q_count := q_count q + 1,
     q_push_count := q_push_count q + 1\<rparr>"

text \<open>What push does once it no longer waits.\<close>
definition push_commit :: "sample_queue \<Rightarrow> water_sample \<Rightarrow> int \<times> sample_queue" where
  "push_commit q s =
     (if q_shutdown q then (-1, q)
      else (0, append_sample (if q_count q \<ge> q_capacity q then drop_oldest q else q) s))"

definition sample_queue_push ::
    "sample_queue option \<Rightarrow> water_sample option \<Rightarrow> int \<Rightarrow> wakeup list
      \<Rightarrow> (int \<times> sample_queue option) option" where
  "sample_queue_push q sample timeout_ms ws =
     (case (q, sample) of
        (Some q0, Some s) \<Rightarrow>
          (case push_wait q0 timeout_ms ws of None \<Rightarrow> None
           | Some q1 \<Rightarrow> (case push_commit q1 s of (r, q2) \<Rightarrow> Some (r, Some q2)))
      | _ \<Rightarrow> Some (-1, q))"

subsection \<open>Pop\<close>

text \<open>The wait loop of \<^verbatim>\<open>sample_queue_pop\<close>: \<open>Inl\<close> when it returns \<^verbatim>\<open>-1\<close> from inside the loop.\<close>
fun pop_wait ::
    "sample_queue \<Rightarrow> int \<Rightarrow> wakeup list \<Rightarrow> (sample_queue + sample_queue) option" where
  "pop_wait q timeout_ms [] =
     (if q_count q = 0 \<and> \<not> q_shutdown q then
        (if timeout_ms \<le> 0 then Some (Inl q) else None)
      else Some (Inr q))"
| "pop_wait q timeout_ms ((q', timedout) # ws) =
     (if q_count q = 0 \<and> \<not> q_shutdown q then
        (if timeout_ms \<le> 0 then Some (Inl q)
         else if timedout then Some (Inl q') else pop_wait q' timeout_ms ws)
      else Some (Inr q))"

text \<open>What pop does once it no longer waits: the sample taken, if any, and the queue.\<close>
definition pop_commit :: "sample_queue \<Rightarrow> water_sample option \<times> sample_queue" where
  "pop_commit q =
     (if q_shutdown q \<and> q_count q = 0 then (None, q)
      else (Some (q_samples q ! q_tail q),
            q\<lparr>q_tail := (q_tail q + 1) mod q_capacity q, q_count := q_count q - 1,
              q_pop_count := q_pop_count q + 1\<rparr>))"

text \<open>The result: the return code, the queue, and the buffer \<open>sample\<close> points to.\<close>
definition sample_queue_pop ::
    "sample_queue option \<Rightarrow> water_sample option \<Rightarrow> int \<Rightarrow> wakeup list
      \<Rightarrow> (int \<times> sample_queue option \<times> water_sample option) option" where
  "sample_queue_pop q sample timeout_ms ws =
     (case (q, sample) of
        (Some q0, Some s0) \<Rightarrow>
          (case pop_wait q0 timeout_ms ws of None \<Rightarrow> None
           | Some (Inl q1) \<Rightarrow> Some (-1, Some q1, Some s0)
           | Some (Inr q1) \<Rightarrow>
               (case pop_commit q1 of
                  (None, q2) \<Rightarrow> Some (-1, Some q2, Some s0)
                | (Some s, q2) \<Rightarrow> Some (0, Some q2, Some s)))
      | _ \<Rightarrow> Some (-1, q, sample))"

subsection \<open>Shutdown and counters\<close>

definition shutdown_queue :: "sample_queue \<Rightarrow> sample_queue" where
  "shutdown_queue q = q\<lparr>q_shutdown := True\<rparr>"

definition sample_queue_shutdown :: "sample_queue option \<Rightarrow> sample_queue option" where
  "sample_queue_shutdown q = map_option shutdown_queue q"

definition sample_queue_count :: "sample_queue option \<Rightarrow> int" where
  "sample_queue_count q = (case q of None \<Rightarrow> 0 | Some q0 \<Rightarrow> int (q_count q0))"

definition sample_queue_overflow_count :: "sample_queue option \<Rightarrow> ulong" where
  "sample_queue_overflow_count q = (case q of None \<Rightarrow> 0 | Some q0 \<Rightarrow> q_overflow_count q0)"

definition sample_queue_push_count :: "sample_queue option \<Rightarrow> ulong" where
  "sample_queue_push_count q = (case q of None \<Rightarrow> 0 | Some q0 \<Rightarrow> q_push_count q0)"

definition sample_queue_pop_count :: "sample_queue option \<Rightarrow> ulong" where
  "sample_queue_pop_count q = (case q of None \<Rightarrow> 0 | Some q0 \<Rightarrow> q_pop_count q0)"

subsection \<open>Well-formedness and contents\<close>

definition queue_inv :: "sample_queue \<Rightarrow> bool" where
  "queue_inv q \<longleftrightarrow> 0 < q_capacity q \<and> length (q_samples q) = q_capacity q
     \<and> q_tail q < q_capacity q \<and> q_count q \<le> q_capacity q
     \<and> q_head q = (q_tail q + q_count q) mod q_capacity q"

text \<open>The samples waiting, oldest first.\<close>
definition queue_list :: "sample_queue \<Rightarrow> water_sample list" where
  "queue_list q =
     map (\<lambda>i. q_samples q ! ((q_tail q + i) mod q_capacity q)) [0..<q_count q]"

lemma queue_inv_head: "queue_inv q \<Longrightarrow> q_head q < q_capacity q"
  by (simp add: queue_inv_def)

lemma length_queue_list [simp]: "length (queue_list q) = q_count q"
  by (simp add: queue_list_def)

lemma queue_inv_drop:
  assumes "queue_inv q" and "0 < q_count q"
  shows "queue_inv (drop_oldest q)" and "queue_list (drop_oldest q) = tl (queue_list q)"
proof -
  obtain n where n: "q_count q = Suc n" using assms(2) by (cases "q_count q") auto
  have shift: "((t + 1) mod c + i) mod c = (t + Suc i) mod c" for t c i :: nat
    by (simp add: mod_add_left_eq)
  show "queue_inv (drop_oldest q)"
    using assms(1) n by (simp add: queue_inv_def drop_oldest_def mod_add_left_eq)
  show "queue_list (drop_oldest q) = tl (queue_list q)"
    unfolding queue_list_def drop_oldest_def n
    by (simp add: shift [simplified] upt_conv_Cons map_Suc_upt [symmetric] comp_def del: upt_Suc)
qed

lemma queue_inv_append:
  assumes inv: "queue_inv q" and room: "q_count q < q_capacity q"
  shows "queue_inv (append_sample q s)"
    and "queue_list (append_sample q s) = queue_list q @ [s]"
proof -
  let ?c = "q_capacity q" and ?t = "q_tail q" and ?n = "q_count q"
  have h: "q_head q = (?t + ?n) mod ?c" and len: "length (q_samples q) = ?c" and c: "0 < ?c"
    using inv by (simp_all add: queue_inv_def)
  show "queue_inv (append_sample q s)"
    using inv room by (simp add: queue_inv_def append_sample_def mod_Suc_eq)
  have old: "(q_samples q)[q_head q := s] ! ((?t + i) mod ?c) = q_samples q ! ((?t + i) mod ?c)"
    if "i < ?n" for i
  proof -
    have "(?t + i) mod ?c \<noteq> q_head q"
      using ring_index_inj [of ?t i ?c ?n] that room unfolding h by auto
    then show ?thesis by simp
  qed
  have new: "(q_samples q)[q_head q := s] ! ((?t + ?n) mod ?c) = s"
    using len c unfolding h by simp
  show "queue_list (append_sample q s) = queue_list q @ [s]"
    unfolding queue_list_def append_sample_def using old new by simp
qed

subsection \<open>The interface: a bounded channel that drops its oldest element\<close>

text \<open>
  What the threads of the gateway rely on. A channel holds a list; putting into a full open
  channel drops the oldest element, putting into a closed one does nothing, getting takes the
  oldest element and still works after closing.
\<close>

datatype 'a chan_op = Put 'a | Get | Close

fun chan_spec :: "nat \<Rightarrow> 'a chan_op \<Rightarrow> 'a list \<times> bool \<Rightarrow> ('a list \<times> bool) \<times> 'a list" where
  "chan_spec c (Put x) (xs, cl) =
     ((if cl then xs else (if length xs < c then xs else tl xs) @ [x], cl), [])"
| "chan_spec c Get (xs, cl) = ((tl xs, cl), take 1 xs)"
| "chan_spec c Close (xs, cl) = ((xs, True), [])"

fun chan_spec_run :: "nat \<Rightarrow> 'a chan_op list \<Rightarrow> 'a list \<times> bool \<Rightarrow> ('a list \<times> bool) \<times> 'a list" where
  "chan_spec_run c [] s = (s, [])"
| "chan_spec_run c (x # ops) s =
     (case chan_spec c x s of (s1, out) \<Rightarrow>
        (case chan_spec_run c ops s1 of (s2, outs) \<Rightarrow> (s2, out @ outs)))"

fun chan_run ::
    "('a \<Rightarrow> 'q \<Rightarrow> 'q) \<Rightarrow> ('q \<Rightarrow> 'a option \<times> 'q) \<Rightarrow> ('q \<Rightarrow> 'q) \<Rightarrow> 'a chan_op list \<Rightarrow> 'q \<Rightarrow> 'q \<times> 'a list" where
  "chan_run put get close [] q = (q, [])"
| "chan_run put get close (Put x # ops) q = chan_run put get close ops (put x q)"
| "chan_run put get close (Close # ops) q = chan_run put get close ops (close q)"
| "chan_run put get close (Get # ops) q =
     (case get q of (out, q1) \<Rightarrow>
        (case chan_run put get close ops q1 of (q2, outs) \<Rightarrow>
           (q2, (case out of None \<Rightarrow> [] | Some x \<Rightarrow> [x]) @ outs)))"

text \<open>The elements a sequence of operations offers.\<close>
fun offered :: "'a chan_op list \<Rightarrow> 'a list" where
  "offered [] = []"
| "offered (Put x # ops) = x # offered ops"
| "offered (Get # ops) = offered ops"
| "offered (Close # ops) = offered ops"

locale bounded_channel =
  fixes wf :: "'q \<Rightarrow> bool"
    and contents :: "'q \<Rightarrow> 'a list"
    and cap :: "'q \<Rightarrow> nat"
    and closed :: "'q \<Rightarrow> bool"
    and put :: "'a \<Rightarrow> 'q \<Rightarrow> 'q"
    and get :: "'q \<Rightarrow> 'a option \<times> 'q"
    and close :: "'q \<Rightarrow> 'q"
  assumes wf_put: "wf q \<Longrightarrow> wf (put x q)"
    and wf_get: "wf q \<Longrightarrow> wf (snd (get q))"
    and wf_close: "wf q \<Longrightarrow> wf (close q)"
    and cap_put: "wf q \<Longrightarrow> cap (put x q) = cap q"
    and cap_get: "wf q \<Longrightarrow> cap (snd (get q)) = cap q"
    and cap_close: "wf q \<Longrightarrow> cap (close q) = cap q"
    and closed_put: "wf q \<Longrightarrow> closed (put x q) = closed q"
    and closed_get: "wf q \<Longrightarrow> closed (snd (get q)) = closed q"
    and closed_close: "wf q \<Longrightarrow> closed (close q)"
    and put_closed: "wf q \<Longrightarrow> closed q \<Longrightarrow> contents (put x q) = contents q"
    and put_open: "wf q \<Longrightarrow> \<not> closed q \<Longrightarrow> contents (put x q) =
          (if length (contents q) < cap q then contents q else tl (contents q)) @ [x]"
    and get_contents: "wf q \<Longrightarrow> contents (snd (get q)) = tl (contents q)"
    and get_out: "wf q \<Longrightarrow> fst (get q) = (case contents q of [] \<Rightarrow> None | y # _ \<Rightarrow> Some y)"
    and close_contents: "wf q \<Longrightarrow> contents (close q) = contents q"
    and cap_pos: "wf q \<Longrightarrow> 0 < cap q"
    and contents_cap: "wf q \<Longrightarrow> length (contents q) \<le> cap q"
begin

lemmas laws = wf_put wf_get wf_close cap_put cap_get cap_close closed_put closed_get
  closed_close put_closed put_open get_contents get_out close_contents

text \<open>Every run is the run of the list specification.\<close>

abbreviation run :: "'a chan_op list \<Rightarrow> 'q \<Rightarrow> 'q \<times> 'a list" where
  "run \<equiv> chan_run put get close"

lemma run_Get:
  "wf q \<Longrightarrow> run (Get # ops) q =
     (fst (run ops (snd (get q))), take 1 (contents q) @ snd (run ops (snd (get q))))"
  by (cases "contents q") (simp_all add: get_out split_def)

lemma spec_run_Cons:
  "chan_spec_run c (x # ops) s =
     (fst (chan_spec_run c ops (fst (chan_spec c x s))),
      snd (chan_spec c x s) @ snd (chan_spec_run c ops (fst (chan_spec c x s))))"
  by (simp add: split_def)

lemma step_refines:
  assumes "wf q"
  shows "(contents (put x q), closed (put x q)) = fst (chan_spec (cap q) (Put x) (contents q, closed q))"
    and "(contents (snd (get q)), closed (snd (get q))) = fst (chan_spec (cap q) Get (contents q, closed q))"
    and "(contents (close q), closed (close q)) = fst (chan_spec (cap q) Close (contents q, closed q))"
  using assms by (simp_all add: laws)

lemma run_wf: "wf q \<Longrightarrow> wf (fst (run ops q)) \<and> cap (fst (run ops q)) = cap q"
proof (induction ops arbitrary: q)
  case (Cons x ops)
  then show ?case by (cases x) (simp_all add: laws run_Get del: chan_run.simps(4))
qed simp

lemma run_refines:
  "wf q \<Longrightarrow> ((contents (fst (run ops q)), closed (fst (run ops q))), snd (run ops q))
           = chan_spec_run (cap q) ops (contents q, closed q)"
proof (induction ops arbitrary: q)
  case (Cons x ops)
  show ?case
  proof (cases x)
    case (Put y)
    show ?thesis
      using Cons.IH [OF wf_put [OF Cons.prems]] Cons.prems
      by (simp only: Put chan_run.simps spec_run_Cons step_refines cap_put) simp
  next
    case Get
    show ?thesis
      using Cons.IH [OF wf_get [OF Cons.prems]] Cons.prems
      by (simp only: Get run_Get spec_run_Cons step_refines cap_get)
        (simp add: prod_eq_iff)
  next
    case Close
    show ?thesis
      using Cons.IH [OF wf_close [OF Cons.prems]] Cons.prems
      by (simp only: Close chan_run.simps spec_run_Cons step_refines cap_close) simp
  qed
qed simp

text \<open>First in, first out: nothing is invented, duplicated or overtaken.\<close>

lemma put_subseq: "wf q \<Longrightarrow> subseq (contents (put x q)) (contents q @ [x])"
  by (cases "closed q"; cases "contents q") (auto simp: put_closed put_open intro: list_emb_append2)

lemma run_fifo:
  "wf q \<Longrightarrow> subseq (snd (run ops q) @ contents (fst (run ops q))) (contents q @ offered ops)"
proof (induction ops arbitrary: q)
  case (Cons x ops)
  show ?case
  proof (cases x)
    case (Put y)
    have "subseq (snd (run ops (put y q)) @ contents (fst (run ops (put y q))))
             (contents (put y q) @ offered ops)"
      by (rule Cons.IH) (rule wf_put [OF Cons.prems])
    also have "subseq (contents (put y q) @ offered ops) ((contents q @ [y]) @ offered ops)"
      by (intro list_emb_append_mono put_subseq Cons.prems) simp
    finally show ?thesis using Put by simp
  next
    case Get
    have IH: "subseq (snd (run ops (snd (get q))) @ contents (fst (run ops (snd (get q)))))
             (tl (contents q) @ offered ops)"
      using Cons.IH [OF wf_get [OF Cons.prems]] Cons.prems by (simp only: get_contents)
    then show ?thesis
      using Cons.prems unfolding Get by (cases "contents q") (simp_all add: run_Get del: chan_run.simps(4))
  next
    case Close
    show ?thesis
      using Cons.IH [OF wf_close [OF Cons.prems]] Cons.prems Close by (simp add: close_contents)
  qed
qed simp

end

text \<open>
  A channel with counters: how many elements were put, taken and dropped, in a ring of
  characteristic \<open>2 ^ 32\<close> (or any other), so that the balance survives the wrap-around.
\<close>

locale counted_channel = bounded_channel wf contents cap closed put get close
  for wf :: "'q \<Rightarrow> bool" and contents :: "'q \<Rightarrow> 'a list" and cap closed put get close +
  fixes puts gets drops :: "'q \<Rightarrow> 'n::comm_ring_1"
  assumes count_put_closed: "wf q \<Longrightarrow> closed q \<Longrightarrow> put x q = q"
    and count_put: "wf q \<Longrightarrow> \<not> closed q \<Longrightarrow> puts (put x q) = puts q + 1 \<and> gets (put x q) = gets q
          \<and> drops (put x q) = drops q + (if length (contents q) < cap q then 0 else 1)"
    and count_get: "wf q \<Longrightarrow> puts (snd (get q)) = puts q \<and> drops (snd (get q)) = drops q
          \<and> gets (snd (get q)) = gets q + of_nat (length (take 1 (contents q)))"
    and count_close: "wf q \<Longrightarrow> puts (close q) = puts q \<and> gets (close q) = gets q \<and> drops (close q) = drops q"
begin

definition balance :: "'q \<Rightarrow> 'n" where
  "balance q = puts q - gets q - drops q - of_nat (length (contents q))"

lemma balance_put: "wf q \<Longrightarrow> balance (put x q) = balance q"
  using cap_pos [of q] contents_cap [of q]
  by (cases "closed q"; cases "contents q")
    (auto simp: balance_def count_put_closed count_put put_open algebra_simps)

lemma balance_get: "wf q \<Longrightarrow> balance (snd (get q)) = balance q"
  by (cases "contents q") (auto simp: balance_def count_get get_contents algebra_simps)

lemma balance_close: "wf q \<Longrightarrow> balance (close q) = balance q"
  by (simp add: balance_def count_close close_contents)

lemma run_balance: "wf q \<Longrightarrow> balance (fst (run ops q)) = balance q"
proof (induction ops arbitrary: q)
  case (Cons x ops)
  then show ?case
    by (cases x) (simp_all add: laws run_Get balance_put balance_get balance_close del: chan_run.simps(4))
qed simp

end

subsection \<open>The queue of the gateway is such a channel\<close>

text \<open>The two operations in their non-blocking form: called with timeout 0.\<close>

definition queue_put :: "water_sample \<Rightarrow> sample_queue \<Rightarrow> sample_queue" where
  "queue_put s q = (case sample_queue_push (Some q) (Some s) 0 [] of
     Some (_, Some q') \<Rightarrow> q' | _ \<Rightarrow> q)"

definition queue_get :: "sample_queue \<Rightarrow> water_sample option \<times> sample_queue" where
  "queue_get q = (case sample_queue_pop (Some q) (Some zero_sample) 0 [] of
     Some (r, Some q', Some s) \<Rightarrow> (if r = 0 then Some s else None, q') | _ \<Rightarrow> (None, q))"

lemma queue_put_eq: "queue_put s q = snd (push_commit q s)"
  by (simp add: queue_put_def sample_queue_push_def split: prod.split)

lemma queue_get_eq: "queue_get q = (if q_count q = 0 then (None, q) else pop_commit q)"
  by (simp add: queue_get_def sample_queue_pop_def pop_commit_def)

lemma push_commit_closed: "q_shutdown q \<Longrightarrow> push_commit q s = (-1, q)"
  by (simp add: push_commit_def)

lemma drop_oldest_fields [simp]:
  "q_capacity (drop_oldest q) = q_capacity q" "q_shutdown (drop_oldest q) = q_shutdown q"
  "q_count (drop_oldest q) = q_count q - 1" "q_push_count (drop_oldest q) = q_push_count q"
  "q_pop_count (drop_oldest q) = q_pop_count q"
  "q_overflow_count (drop_oldest q) = q_overflow_count q + 1"
  by (simp_all add: drop_oldest_def)

lemma append_sample_fields [simp]:
  "q_capacity (append_sample q s) = q_capacity q" "q_shutdown (append_sample q s) = q_shutdown q"
  "q_count (append_sample q s) = q_count q + 1" "q_push_count (append_sample q s) = q_push_count q + 1"
  "q_pop_count (append_sample q s) = q_pop_count q"
  "q_overflow_count (append_sample q s) = q_overflow_count q"
  by (simp_all add: append_sample_def)

lemma push_commit_open:
  assumes "queue_inv q" and "\<not> q_shutdown q"
  shows "fst (push_commit q s) = 0" and "queue_inv (snd (push_commit q s))"
    and "queue_list (snd (push_commit q s)) =
      (if q_count q < q_capacity q then queue_list q else tl (queue_list q)) @ [s]"
proof -
  have "0 < q_capacity q" "q_count q \<le> q_capacity q"
    using assms(1) by (simp_all add: queue_inv_def)
  then show "fst (push_commit q s) = 0" "queue_inv (snd (push_commit q s))"
    "queue_list (snd (push_commit q s)) =
      (if q_count q < q_capacity q then queue_list q else tl (queue_list q)) @ [s]"
    using assms by (auto simp: push_commit_def queue_inv_append queue_inv_drop not_less)
qed

lemma pop_commit_nonempty:
  assumes "queue_inv q" and "0 < q_count q"
  shows "fst (pop_commit q) = Some (hd (queue_list q))" and "queue_inv (snd (pop_commit q))"
    and "queue_list (snd (pop_commit q)) = tl (queue_list q)"
proof -
  have same: "queue_list (snd (pop_commit q)) = queue_list (drop_oldest q)"
    "queue_inv (snd (pop_commit q)) = queue_inv (drop_oldest q)"
    using assms(2) by (simp_all add: pop_commit_def drop_oldest_def queue_list_def queue_inv_def)
  show "queue_inv (snd (pop_commit q))" "queue_list (snd (pop_commit q)) = tl (queue_list q)"
    unfolding same by (rule queue_inv_drop [OF assms])+
  show "fst (pop_commit q) = Some (hd (queue_list q))"
    using assms by (simp add: pop_commit_def queue_list_def hd_map queue_inv_def)
qed

lemma pop_commit_fields [simp]:
  "q_capacity (snd (pop_commit q)) = q_capacity q" "q_shutdown (snd (pop_commit q)) = q_shutdown q"
  by (simp_all add: pop_commit_def)

lemma push_commit_fields [simp]:
  "q_capacity (snd (push_commit q s)) = q_capacity q" "q_shutdown (snd (push_commit q s)) = q_shutdown q"
  by (simp_all add: push_commit_def)

lemma queue_list_empty: "q_count q = 0 \<Longrightarrow> queue_list q = []"
  by (simp add: queue_list_def)

lemma queue_list_nonempty: "0 < q_count q \<Longrightarrow> queue_list q = hd (queue_list q) # tl (queue_list q)"
  by (metis length_queue_list list.collapse list.size(3) less_numeral_extra(3))

lemma shutdown_queue_simps [simp]:
  "queue_inv (shutdown_queue q) = queue_inv q" "queue_list (shutdown_queue q) = queue_list q"
  "q_capacity (shutdown_queue q) = q_capacity q" "q_shutdown (shutdown_queue q)"
  "q_count (shutdown_queue q) = q_count q" "q_push_count (shutdown_queue q) = q_push_count q"
  "q_pop_count (shutdown_queue q) = q_pop_count q"
  "q_overflow_count (shutdown_queue q) = q_overflow_count q"
  by (simp_all add: shutdown_queue_def queue_inv_def queue_list_def)

lemma queue_get_out:
  "queue_inv q \<Longrightarrow> fst (queue_get q) = (case queue_list q of [] \<Rightarrow> None | y # _ \<Rightarrow> Some y)"
  using queue_list_nonempty [of q]
  by (cases "q_count q = 0") (auto simp: queue_get_eq queue_list_empty pop_commit_nonempty
      split: list.split)

lemma queue_get_counts:
  "queue_inv q \<Longrightarrow> q_push_count (snd (queue_get q)) = q_push_count q
     \<and> q_overflow_count (snd (queue_get q)) = q_overflow_count q
     \<and> q_pop_count (snd (queue_get q)) = q_pop_count q + of_nat (length (take 1 (queue_list q)))"
  by (cases "q_count q = 0") (auto simp: queue_get_eq queue_list_empty pop_commit_def)

interpretation sq: counted_channel queue_inv queue_list q_capacity q_shutdown queue_put queue_get
  shutdown_queue q_push_count q_pop_count q_overflow_count
proof unfold_locales
  fix q x
  assume inv: "queue_inv q"
  show "queue_inv (queue_put x q)"
    using inv push_commit_open(2) [OF inv] by (cases "q_shutdown q") (simp_all add: queue_put_eq push_commit_closed)
  show "queue_inv (snd (queue_get q))"
    using inv pop_commit_nonempty(2) [OF inv] by (cases "q_count q") (simp_all add: queue_get_eq)
  show "queue_list (snd (queue_get q)) = tl (queue_list q)"
    using pop_commit_nonempty(3) [OF inv] by (cases "q_count q") (simp_all add: queue_get_eq queue_list_empty)
  show "fst (queue_get q) = (case queue_list q of [] \<Rightarrow> None | y # _ \<Rightarrow> Some y)"
    using inv by (rule queue_get_out)
  show "0 < q_capacity q" "length (queue_list q) \<le> q_capacity q"
    using inv by (simp_all add: queue_inv_def)
  show "q_push_count (snd (queue_get q)) = q_push_count q
    \<and> q_overflow_count (snd (queue_get q)) = q_overflow_count q
    \<and> q_pop_count (snd (queue_get q)) = q_pop_count q + of_nat (length (take 1 (queue_list q)))"
    using inv by (rule queue_get_counts)
qed (simp_all add: queue_put_eq queue_get_eq push_commit_open push_commit_closed,
    auto simp: push_commit_def)

lemma create_queue:
  assumes "sample_queue_create a b c res = (Some q, res')"
  shows "queue_inv q" and "queue_list q = []" and "q_capacity q = nat c" and "\<not> q_shutdown q"
    and "q_push_count q = 0" and "q_pop_count q = 0" and "q_overflow_count q = 0"
  using assms by (auto simp: sample_queue_create_def queue_inv_def queue_list_def Let_def split: if_splits)

definition small_queue :: sample_queue where
  "small_queue = the (fst (sample_queue_create True True 2 \<lparr>live_blocks = 0, live_sync = 0\<rparr>))"

definition mk_sample :: "nat \<Rightarrow> water_sample" where
  "mk_sample n = zero_sample\<lparr>sequence := of_nat n\<rparr>"

lemma small_queue: "sample_queue_create True True 2 \<lparr>live_blocks = 0, live_sync = 0\<rparr>
    = (Some small_queue, \<lparr>live_blocks = 2, live_sync = 3\<rparr>)"
  by (simp add: small_queue_def sample_queue_create_def)

lemma small_queue_inv: "queue_inv small_queue"
  by (rule create_queue [OF small_queue])

text \<open>
  Property C1. Any sequence of pushes, pops and shutdowns on a well-formed queue behaves as
  the same sequence on a plain list with a closed flag: the ring buffer stays well-formed, its
  contents, its shutdown flag and the samples popped are those of the specification, in which
  a push to a full queue drops the oldest element and a push to a closed one is refused.
\<close>
theorem queue_run_refines:
  assumes "queue_inv q"
  shows "queue_inv (fst (chan_run queue_put queue_get shutdown_queue ops q))
    \<and> ((queue_list (fst (chan_run queue_put queue_get shutdown_queue ops q)),
         q_shutdown (fst (chan_run queue_put queue_get shutdown_queue ops q))),
        snd (chan_run queue_put queue_get shutdown_queue ops q))
      = chan_spec_run (q_capacity q) ops (queue_list q, q_shutdown q)"
  using sq.run_wf [OF assms] sq.run_refines [OF assms] by blast

theorem queue_run_refines_witness:
  "snd (chan_run queue_put queue_get shutdown_queue
      [Put (mk_sample 1), Put (mk_sample 2), Put (mk_sample 3), Get, Close, Put (mk_sample 4), Get, Get]
      small_queue) = [mk_sample 2, mk_sample 3]"
  using queue_run_refines [OF small_queue_inv, of "[Put (mk_sample 1), Put (mk_sample 2),
      Put (mk_sample 3), Get, Close, Put (mk_sample 4), Get, Get]"]
    create_queue [OF small_queue]
  by (simp add: prod_eq_iff)



text \<open>
  The statistics balance: after any operations on a fresh queue, the push
  counter is the pop counter plus the overflow counter plus the number of queued samples,
  modulo \<open>2 ^ 32\<close> as the \<^verbatim>\<open>unsigned long\<close> counters wrap.
\<close>
theorem queue_counters_balance:
  assumes "sample_queue_create a b c res = (Some q, res')"
    and "q' = fst (chan_run queue_put queue_get shutdown_queue ops q)"
  shows "sample_queue_push_count (Some q') =
      sample_queue_pop_count (Some q') + sample_queue_overflow_count (Some q')
      + of_int (sample_queue_count (Some q'))"
proof -
  have "sq.balance q' = sq.balance q"
    unfolding assms(2) by (rule sq.run_balance) (rule create_queue [OF assms(1)])
  also have "sq.balance q = 0"
    using create_queue [OF assms(1)] by (simp add: sq.balance_def del: length_queue_list)
  finally show ?thesis
    by (simp add: sq.balance_def sample_queue_push_count_def sample_queue_pop_count_def
        sample_queue_overflow_count_def sample_queue_count_def algebra_simps)
qed

theorem queue_counters_balance_witness:
  "\<exists>q'. q' = fst (chan_run queue_put queue_get shutdown_queue
          [Put (mk_sample 1), Put (mk_sample 2), Put (mk_sample 3), Get] small_queue)
     \<and> sample_queue_push_count (Some q') =
      sample_queue_pop_count (Some q') + sample_queue_overflow_count (Some q')
      + of_int (sample_queue_count (Some q'))"
  using queue_counters_balance [OF small_queue refl] by blast

subsection \<open>Waiting\<close>

lemma push_wait_None_iff:
  "push_wait q t ws = None \<longleftrightarrow> 0 < t \<and> q_count q \<ge> q_capacity q \<and> \<not> q_shutdown q
     \<and> (\<forall>(q', timedout) \<in> set ws. \<not> timedout \<and> q_count q' \<ge> q_capacity q' \<and> \<not> q_shutdown q')"
  by (induction q t ws rule: push_wait.induct) (auto split: if_splits)

lemma pop_wait_None_iff:
  "pop_wait q t ws = None \<longleftrightarrow> 0 < t \<and> q_count q = 0 \<and> \<not> q_shutdown q
     \<and> (\<forall>(q', timedout) \<in> set ws. \<not> timedout \<and> q_count q' = 0 \<and> \<not> q_shutdown q')"
  by (induction q t ws rule: pop_wait.induct) (auto split: if_splits)

lemma push_wait_source: "push_wait q t ws = Some q1 \<Longrightarrow> q1 \<in> insert q (fst ` set ws)"
  by (induction q t ws rule: push_wait.induct) (auto split: if_splits)

lemma pop_wait_source:
  "pop_wait q t ws = Some r \<Longrightarrow> \<exists>q1 \<in> insert q (fst ` set ws). r = Inl q1 \<or> r = Inr q1"
  by (induction q t ws rule: pop_wait.induct) (auto split: if_splits)

lemma pop_wait_Inr: "pop_wait q t ws = Some (Inr q1) \<Longrightarrow> 0 < q_count q1 \<or> q_shutdown q1"
  by (induction q t ws rule: pop_wait.induct) (auto split: if_splits)

text \<open>
  Property C40. When the two operations block. Push is still waiting exactly when its timeout
  is positive and the queue was full and open at the call and after every wake-up, none of
  which timed out; pop likewise for an empty queue. In particular one timed-out wake-up, a
  shutdown or a timeout of 0 ends the wait.
\<close>
theorem queue_blocks_iff:
  "(sample_queue_push (Some q) (Some s) t ws = None \<longleftrightarrow>
      0 < t \<and> q_count q \<ge> q_capacity q \<and> \<not> q_shutdown q
      \<and> list_all (\<lambda>(q', timedout). \<not> timedout \<and> q_count q' \<ge> q_capacity q' \<and> \<not> q_shutdown q') ws)
   \<and> (sample_queue_pop (Some q) (Some s) t ws = None \<longleftrightarrow>
      0 < t \<and> q_count q = 0 \<and> \<not> q_shutdown q
      \<and> list_all (\<lambda>(q', timedout). \<not> timedout \<and> q_count q' = 0 \<and> \<not> q_shutdown q') ws)"
proof
  show "sample_queue_push (Some q) (Some s) t ws = None \<longleftrightarrow>
      0 < t \<and> q_count q \<ge> q_capacity q \<and> \<not> q_shutdown q
      \<and> list_all (\<lambda>(q', timedout). \<not> timedout \<and> q_count q' \<ge> q_capacity q' \<and> \<not> q_shutdown q') ws"
    using push_wait_None_iff [of q t ws]
    by (auto simp: sample_queue_push_def list_all_iff split: option.splits prod.splits)
  show "sample_queue_pop (Some q) (Some s) t ws = None \<longleftrightarrow>
      0 < t \<and> q_count q = 0 \<and> \<not> q_shutdown q
      \<and> list_all (\<lambda>(q', timedout). \<not> timedout \<and> q_count q' = 0 \<and> \<not> q_shutdown q') ws"
    using pop_wait_None_iff [of q t ws]
    by (auto simp: sample_queue_pop_def list_all_iff split: option.splits sum.splits prod.splits)
qed

text \<open>
  A push that returns took effect on one single state of the queue, the one at
  the call or after one of its wake-ups: on a closed queue it returned \<^verbatim>\<open>-1\<close> and changed
  nothing; otherwise it returned 0 and appended the sample, dropping the oldest one and
  counting an overflow exactly when that queue was full.
\<close>
theorem sample_queue_push_effect:
  assumes "sample_queue_push (Some q) (Some s) t ws = Some (r, q2)"
    and "list_all queue_inv (q # map fst ws)"
  shows "\<exists>q1 \<in> set (q # map fst ws). \<exists>q'. q2 = Some q' \<and> queue_inv q' \<and>
      (if q_shutdown q1 then r = -1 \<and> q' = q1
       else r = 0
         \<and> queue_list q' = (if q_count q1 < q_capacity q1 then queue_list q1 else tl (queue_list q1)) @ [s]
         \<and> q_push_count q' = q_push_count q1 + 1 \<and> q_pop_count q' = q_pop_count q1
         \<and> q_overflow_count q' = q_overflow_count q1 + (if q_count q1 < q_capacity q1 then 0 else 1))"
proof -
  obtain q1 where w: "push_wait q t ws = Some q1" and r: "r = fst (push_commit q1 s)"
    and q2: "q2 = Some (snd (push_commit q1 s))"
    using assms(1) by (auto simp: sample_queue_push_def split: option.splits prod.splits)
  have mem: "q1 \<in> set (q # map fst ws)" using push_wait_source [OF w] by simp
  with assms(2) have inv: "queue_inv q1" by (auto simp: list_all_iff)
  show ?thesis
  proof (cases "q_shutdown q1")
    case True
    with inv r q2 mem show ?thesis by (intro bexI [of _ q1]) (simp_all add: push_commit_closed)
  next
    case False
    with r q2 mem push_commit_open [OF inv False, of s] sq.count_put [OF inv False, of s]
    show ?thesis by (intro bexI [of _ q1]) (simp_all add: queue_put_eq)
  qed
qed

theorem sample_queue_push_effect_witness:
  "\<exists>r q2. sample_queue_push (Some small_queue) (Some (mk_sample 7)) 100 [] = Some (r, Some q2)
     \<and> r = 0 \<and> queue_list q2 = [mk_sample 7]"
proof -
  note c = create_queue [OF small_queue]
  have z: "q_count small_queue = 0" using c(2) by (metis length_queue_list list.size(3))
  obtain r q2 where p: "sample_queue_push (Some small_queue) (Some (mk_sample 7)) 100 [] = Some (r, q2)"
    using c z by (cases "push_commit small_queue (mk_sample 7)") (auto simp: sample_queue_push_def)
  from sample_queue_push_effect [OF this] small_queue_inv c z p show ?thesis by auto
qed

text \<open>
  A pop that returns 0 delivers the oldest sample of the queue it woke up in and
  removes exactly that one; a pop that returns \<^verbatim>\<open>-1\<close> leaves that queue and the caller's buffer
  alone, and it does so only on a timeout or, once the queue is shut down, when it is empty:
  the samples still queued at shutdown can all be popped.
\<close>
theorem sample_queue_pop_effect:
  assumes "sample_queue_pop (Some q) (Some b) t ws = Some (r, q2, out)"
    and "list_all queue_inv (q # map fst ws)"
  shows "\<exists>q1 \<in> set (q # map fst ws). \<exists>q'. q2 = Some q' \<and> queue_inv q' \<and>
      (if r = 0 then queue_list q1 \<noteq> [] \<and> out = Some (hd (queue_list q1))
           \<and> queue_list q' = tl (queue_list q1) \<and> q_pop_count q' = q_pop_count q1 + 1
       else r = -1 \<and> q' = q1 \<and> out = Some b
           \<and> (t \<le> 0 \<or> (\<exists>w \<in> set ws. snd w) \<or> (q_shutdown q1 \<and> queue_list q1 = [])))"
proof -
  obtain w where w: "pop_wait q t ws = Some w"
    using assms(1) by (auto simp: sample_queue_pop_def split: option.splits)
  from pop_wait_source [OF w] obtain q1 where mem: "q1 \<in> set (q # map fst ws)"
    and w1: "w = Inl q1 \<or> w = Inr q1" by auto
  from assms(2) mem have inv: "queue_inv q1" by (auto simp: list_all_iff)
  show ?thesis
  proof (cases "w = Inl q1")
    case True
    have "t \<le> 0 \<or> (\<exists>x \<in> set ws. snd x)"
      using w unfolding True by (induction q t ws rule: pop_wait.induct) (auto split: if_splits)
    with assms(1) w True inv mem show ?thesis
      by (intro bexI [of _ q1]) (auto simp: sample_queue_pop_def)
  next
    case False
    with w1 have w2: "pop_wait q t ws = Some (Inr q1)" using w by simp
    show ?thesis
    proof (cases "q_count q1 = 0")
      case True
      with pop_wait_Inr [OF w2] have "q_shutdown q1" by simp
      with True assms(1) w2 inv mem show ?thesis
        by (intro bexI [of _ q1]) (auto simp: sample_queue_pop_def pop_commit_def queue_list_empty)
    next
      case nonempty: False
      then have pos: "0 < q_count q1" by simp
      obtain c where c: "pop_commit q1 = (Some (hd (queue_list q1)), c)"
        using pop_commit_nonempty(1) [OF inv pos] by (cases "pop_commit q1") auto
      have "q_pop_count c = q_pop_count q1 + 1"
        using c nonempty by (auto simp: pop_commit_def)
      moreover have "queue_list q1 \<noteq> []" using pos by (metis length_queue_list list.size(3) less_irrefl)
      ultimately show ?thesis
        using pop_commit_nonempty [OF inv pos] c assms(1) w2 mem
        by (intro bexI [of _ q1]) (auto simp: sample_queue_pop_def)
    qed
  qed
qed

theorem sample_queue_pop_effect_witness:
  "\<exists>r q2. sample_queue_pop (Some small_queue) (Some (mk_sample 9)) 0 [] = Some (r, q2, Some (mk_sample 9))
     \<and> r = -1"
proof -
  note c = create_queue [OF small_queue]
  have z: "q_count small_queue = 0" using c(2) by (metis length_queue_list list.size(3))
  have p: "sample_queue_pop (Some small_queue) (Some (mk_sample 9)) 0 []
      = Some (-1, Some small_queue, Some (mk_sample 9))"
    using c z by (simp add: sample_queue_pop_def)
  from sample_queue_pop_effect [OF this] small_queue_inv p show ?thesis by auto
qed

text \<open>
  Creation and destruction balance: a failed \<^verbatim>\<open>sample_queue_create\<close> (bad capacity
  or either allocation failing) keeps no memory, a successful one holds two blocks and three
  synchronisation objects and gives an empty well-formed queue of the requested capacity, and
  \<^verbatim>\<open>sample_queue_destroy\<close> returns exactly those.
\<close>
theorem sample_queue_create_destroy:
  "case sample_queue_create a b c res of
     (None, res') \<Rightarrow> res' = res \<and> (c \<le> 0 \<or> \<not> a \<or> \<not> b)
   | (Some q, res') \<Rightarrow> 0 < c \<and> queue_inv q \<and> queue_list q = [] \<and> int (q_capacity q) = c
        \<and> live_blocks res' = live_blocks res + 2 \<and> live_sync res' = live_sync res + 3
        \<and> sample_queue_destroy (Some q) res' = res"
  by (auto simp: sample_queue_create_def sample_queue_destroy_def queue_inv_def queue_list_def Let_def)

text \<open>
  The deadline of a timed wait is exact and normalised: for a clock reading with
  microseconds in range and a non-negative timeout, \<^verbatim>\<open>timespec_add_ms\<close> yields nanoseconds below
  one second, the total is the clock plus the timeout to the nanosecond, and the intermediate
  nanosecond sum stays below \<open>2 ^ 31\<close>, so it cannot overflow the 32-bit \<^verbatim>\<open>long\<close>.
\<close>
theorem timespec_add_ms_exact:
  assumes "0 \<le> usec" and "usec < 1000000" and "0 \<le> timeout_ms"
  shows "case timespec_add_ms (sec, usec) timeout_ms of (s, ns) \<Rightarrow>
      0 \<le> ns \<and> ns < 1000000000
      \<and> s * 1000000000 + ns = (sec * 1000000 + usec) * 1000 + timeout_ms * 1000000
      \<and> c_mod usec 1000000 * 1000 + c_mod timeout_ms 1000 * 1000000 < 2 ^ 31"
proof -
  have u: "c_div usec 1000000 = 0" "c_mod usec 1000000 = usec"
    using assms by (simp_all add: c_div_nonneg c_mod_nonneg)
  have t: "c_div timeout_ms 1000 = timeout_ms div 1000" "c_mod timeout_ms 1000 = timeout_ms mod 1000"
    using assms by (simp_all add: c_div_nonneg c_mod_nonneg)
  define d m where "d = timeout_ms div 1000" and "m = timeout_ms mod 1000"
  have "timeout_ms = 1000 * d + m" "0 \<le> m" "m < 1000" by (simp_all add: d_def m_def)
  with assms show ?thesis
    unfolding timespec_add_ms_def Let_def prod.sel u t d_def [symmetric] m_def [symmetric] by auto
qed

theorem timespec_add_ms_exact_witness:
  "timespec_add_ms (10, 900000) 500 = (11, 400000000)"
proof -
  define x y where "x = fst (timespec_add_ms (10, 900000) 500)"
    and "y = snd (timespec_add_ms (10, 900000) 500)"
  have e: "x * 1000000000 + y = 11400000000" "0 \<le> y" "y < 1000000000"
    using timespec_add_ms_exact [of 900000 500 10] by (auto simp: x_def y_def split: prod.splits)
  then have "x < 12" "10 < x" by linarith+
  then have "x = 11" by simp
  with e have "y = 400000000" by simp
  with \<open>x = 11\<close> show ?thesis by (simp add: x_def y_def prod_eq_iff)
qed

end
