(* ===== verification/Gateway_Config.thy ===== *)
theory Gateway_Config
  imports Gw_Prelude
begin

section \<open>The configuration file (\<^verbatim>\<open>app/src/config.c\<close>)\<close>

text \<open>
  \<^verbatim>\<open>gateway_config_t\<close> is a record whose strings are what the \<^verbatim>\<open>char\<close> arrays hold before their NUL.
  A file is the string of its bytes; \<^verbatim>\<open>fgets\<close> with a buffer of 256 bytes cuts it into lines of at
  most 255 characters. What is printed on standard error is collected line by line.
\<close>

record gateway_config =
  cfg_device_id :: string
  cfg_sample_period_ms :: int
  cfg_log_level :: string
  cfg_serial_device :: string
  cfg_baudrate :: int
  cfg_modbus_slave_addr :: int
  cfg_db_path :: string
  cfg_max_cache_count :: int
  cfg_upload_enabled :: int
  cfg_upload_protocol :: string
  cfg_alarm_device :: string
  cfg_log_file :: string
  cfg_upload_server_host :: string
  cfg_upload_server_port :: int
  cfg_upload_period_ms :: int
  cfg_upload_batch_max :: int
  cfg_upload_retry_max :: int

definition trim :: "string \<Rightarrow> string" where
  "trim str =
     (let s = dropWhile isspace str
      in if s = [] then s else rev (dropWhile isspace (rev s)))"

text \<open>The new contents of \<open>dst\<close>.\<close>
definition copy_string :: "string \<Rightarrow> nat \<Rightarrow> string \<Rightarrow> string" where
  "copy_string dst dst_size src = (if dst_size = 0 then dst else fst (snprintf dst_size src))"

definition default_config :: gateway_config where
  "default_config =
     \<lparr>cfg_device_id = copy_string [] 64 ''water_gateway_001'',
      cfg_sample_period_ms = 1000,
      cfg_log_level = copy_string [] 16 ''info'',
      cfg_serial_device = copy_string [] 128 ''/dev/ttyUSB0'',
      cfg_baudrate = 9600,
      cfg_modbus_slave_addr = 1,
      cfg_db_path = copy_string [] 256 ''water_gateway.db'',
      cfg_max_cache_count = 100000,
      cfg_upload_enabled = 1,
      cfg_upload_protocol = copy_string [] 16 ''tcp'',
      cfg_alarm_device = copy_string [] 128 ''/dev/newchrled'',
      cfg_log_file = copy_string [] 256 ''stdout'',
      cfg_upload_server_host = copy_string [] 128 ''192.168.2.150'',
      cfg_upload_server_port = 18800,
      cfg_upload_period_ms = 5000,
      cfg_upload_batch_max = 20,
      cfg_upload_retry_max = 3\<rparr>"

definition config_set_default :: "gateway_config option \<Rightarrow> gateway_config option" where
  "config_set_default cfg = (case cfg of None \<Rightarrow> None | Some _ \<Rightarrow> Some default_config)"

subsection \<open>Reading lines\<close>

abbreviation newline :: char where "newline \<equiv> CHR 0x0A"

text \<open>Up to \<open>n\<close> characters, ending after a newline: what \<^verbatim>\<open>fgets\<close> takes, and the rest.\<close>
fun fgets_chunk :: "nat \<Rightarrow> string \<Rightarrow> string \<times> string" where
  "fgets_chunk 0 s = ([], s)"
| "fgets_chunk (Suc n) [] = ([], [])"
| "fgets_chunk (Suc n) (c # cs) =
     (if c = newline then ([c], cs)
      else (case fgets_chunk n cs of (l, r) \<Rightarrow> (c # l, r)))"

lemma fgets_chunk_append: "fgets_chunk n s = (l, r) \<Longrightarrow> s = l @ r"
  by (induction n s arbitrary: l r rule: fgets_chunk.induct) (auto split: if_splits prod.splits)

lemma fgets_chunk_progress: "fgets_chunk (Suc n) (c # cs) = (l, r) \<Longrightarrow> length r < length (c # cs)"
  using fgets_chunk_append [of "Suc n" "c # cs" l r] by (auto split: if_splits prod.splits)

lemma fgets_chunk_shorter: "s \<noteq> [] \<Longrightarrow> (l, r) = fgets_chunk 255 s \<Longrightarrow> length r < length s"
proof -
  assume "s \<noteq> []" and lr: "(l, r) = fgets_chunk 255 s"
  then obtain c cs where s: "s = c # cs" by (auto simp: neq_Nil_conv)
  have n: "(255 :: nat) = Suc 254" by simp
  have "fgets_chunk (Suc 254) (c # cs) = (l, r)" using lr unfolding s n by (rule sym)
  from fgets_chunk_progress [OF this] show "length r < length s" unfolding s .
qed

function read_lines :: "string \<Rightarrow> string list" where
  "read_lines s =
     (if s = [] then [] else (case fgets_chunk 255 s of (l, r) \<Rightarrow> l # read_lines r))"
  by auto
termination
  by (relation "measure length") (simp_all add: fgets_chunk_shorter)

declare read_lines.simps [simp del]

subsection \<open>One line\<close>

definition set_key :: "string \<Rightarrow> string \<Rightarrow> gateway_config \<Rightarrow> gateway_config option" where
  "set_key key value cfg =
     (if key = ''device_id'' then Some (cfg\<lparr>cfg_device_id := copy_string (cfg_device_id cfg) 64 value\<rparr>)
      else if key = ''sample_period_ms'' then Some (cfg\<lparr>cfg_sample_period_ms := atoi value\<rparr>)
      else if key = ''log_level'' then Some (cfg\<lparr>cfg_log_level := copy_string (cfg_log_level cfg) 16 value\<rparr>)
      else if key = ''serial_device'' then Some (cfg\<lparr>cfg_serial_device := copy_string (cfg_serial_device cfg) 128 value\<rparr>)
      else if key = ''baudrate'' then Some (cfg\<lparr>cfg_baudrate := atoi value\<rparr>)
      else if key = ''modbus_slave_addr'' then Some (cfg\<lparr>cfg_modbus_slave_addr := atoi value\<rparr>)
      else if key = ''db_path'' then Some (cfg\<lparr>cfg_db_path := copy_string (cfg_db_path cfg) 256 value\<rparr>)
      else if key = ''max_cache_count'' then Some (cfg\<lparr>cfg_max_cache_count := atoi value\<rparr>)
      else if key = ''upload_enabled'' then Some (cfg\<lparr>cfg_upload_enabled := atoi value\<rparr>)
      else if key = ''upload_protocol'' then Some (cfg\<lparr>cfg_upload_protocol := copy_string (cfg_upload_protocol cfg) 16 value\<rparr>)
      else if key = ''upload_server_host'' then Some (cfg\<lparr>cfg_upload_server_host := copy_string (cfg_upload_server_host cfg) 128 value\<rparr>)
      else if key = ''upload_server_port'' then Some (cfg\<lparr>cfg_upload_server_port := atoi value\<rparr>)
      else if key = ''upload_period_ms'' then Some (cfg\<lparr>cfg_upload_period_ms := atoi value\<rparr>)
      else if key = ''upload_batch_max'' then Some (cfg\<lparr>cfg_upload_batch_max := atoi value\<rparr>)
      else if key = ''upload_retry_max'' then Some (cfg\<lparr>cfg_upload_retry_max := atoi value\<rparr>)
      else if key = ''log_file'' then Some (cfg\<lparr>cfg_log_file := copy_string (cfg_log_file cfg) 256 value\<rparr>)
      else if key = ''alarm_device'' then Some (cfg\<lparr>cfg_alarm_device := copy_string (cfg_alarm_device cfg) 128 value\<rparr>)
      else None)"

text \<open>What a line says: nothing, something invalid (the text reported), or a key and a value.\<close>
datatype config_line = Skip | Invalid string | Assign string string

definition parse_line :: "string \<Rightarrow> config_line" where
  "parse_line line =
     (let key = trim (cstr line)
      in if key = [] \<or> hd key = CHR ''#'' \<or> hd key = CHR '';'' then Skip
         else if CHR ''='' \<notin> set key then Invalid key
         else Assign (trim (takeWhile (\<lambda>c. c \<noteq> CHR ''='') key))
                     (trim (tl (dropWhile (\<lambda>c. c \<noteq> CHR ''='') key))))"

definition load_line :: "int \<Rightarrow> string \<Rightarrow> gateway_config \<Rightarrow> gateway_config \<times> string list" where
  "load_line line_no line cfg =
     (case parse_line line of
        Skip \<Rightarrow> (cfg, [])
      | Invalid key \<Rightarrow> (cfg, [''invalid config line '' @ fmt_int line_no @ '': '' @ key])
      | Assign key value \<Rightarrow>
          (case set_key key value cfg of
             Some cfg' \<Rightarrow> (cfg', [])
           | None \<Rightarrow> (cfg, [''unknown config key at line '' @ fmt_int line_no @ '': '' @ key])))"

fun load_lines :: "int \<Rightarrow> string list \<Rightarrow> gateway_config \<Rightarrow> gateway_config \<times> string list" where
  "load_lines n [] cfg = (cfg, [])"
| "load_lines n (l # ls) cfg =
     (case load_line (n + 1) l cfg of (cfg1, errs) \<Rightarrow>
        (case load_lines (n + 1) ls cfg1 of (cfg2, errs2) \<Rightarrow> (cfg2, errs @ errs2)))"

subsection \<open>Loading and printing\<close>

definition validate_config :: "gateway_config \<Rightarrow> gateway_config \<times> string list" where
  "validate_config c0 =
     (let (c1, e1) = (if cfg_sample_period_ms c0 \<le> 0
            then (c0\<lparr>cfg_sample_period_ms := 1000\<rparr>, [''invalid sample_period_ms, use default 1000''])
            else (c0, []));
          (c2, e2) = (if cfg_baudrate c1 \<le> 0
            then (c1\<lparr>cfg_baudrate := 9600\<rparr>, [''invalid baudrate, use default 9600'']) else (c1, []));
          (c3, e3) = (if cfg_modbus_slave_addr c2 < 1 \<or> cfg_modbus_slave_addr c2 > 247
            then (c2\<lparr>cfg_modbus_slave_addr := 1\<rparr>, [''invalid modbus_slave_addr, use default 1'']) else (c2, []));
          c4 = (if cfg_max_cache_count c3 \<le> 0 then c3\<lparr>cfg_max_cache_count := 100000\<rparr> else c3)
      in (c4, e1 @ e2 @ e3))"

text \<open>\<open>contents\<close> is what the path holds, \<open>None\<close> when \<^verbatim>\<open>fopen\<close> fails.\<close>
definition config_load ::
    "string option \<Rightarrow> string option \<Rightarrow> gateway_config option \<Rightarrow> int \<times> gateway_config option \<times> string list" where
  "config_load path contents cfg =
     (case (path, cfg) of
        (Some _, Some _) \<Rightarrow>
          (let cfg0 = default_config
           in (case contents of
                 None \<Rightarrow> (-1, Some cfg0, [''open config file failed''])
               | Some text \<Rightarrow>
                   (case load_lines 0 (read_lines text) cfg0 of (cfg1, errs1) \<Rightarrow>
                      (case validate_config cfg1 of (cfg2, errs2) \<Rightarrow> (0, Some cfg2, errs1 @ errs2)))))
      | _ \<Rightarrow> (-1, cfg, []))"

text \<open>The lines of \<^verbatim>\<open>config_print\<close>, without their newlines.\<close>
definition config_lines :: "gateway_config \<Rightarrow> string list" where
  "config_lines c =
     [''config:'',
      ''  device_id        = '' @ cfg_device_id c,
      ''  sample_period_ms = '' @ fmt_int (cfg_sample_period_ms c),
      ''  log_level        = '' @ cfg_log_level c,
      ''  serial_device    = '' @ cfg_serial_device c,
      ''  baudrate         = '' @ fmt_int (cfg_baudrate c),
      ''  modbus_slave_addr= '' @ fmt_int (cfg_modbus_slave_addr c),
      ''  db_path         = '' @ cfg_db_path c,
      ''  max_cache_count = '' @ fmt_int (cfg_max_cache_count c),
      ''  upload_enabled  = '' @ fmt_int (cfg_upload_enabled c),
      ''  upload_protocol = '' @ cfg_upload_protocol c,
      ''  upload_server_host = '' @ cfg_upload_server_host c,
      ''  upload_server_port = '' @ fmt_int (cfg_upload_server_port c),
      ''  upload_period_ms   = '' @ fmt_int (cfg_upload_period_ms c),
      ''  upload_batch_max   = '' @ fmt_int (cfg_upload_batch_max c),
      ''  upload_retry_max   = '' @ fmt_int (cfg_upload_retry_max c),
      ''  log_file           = '' @ cfg_log_file c,
      ''  alarm_device       = '' @ cfg_alarm_device c]"

definition config_print :: "gateway_config option \<Rightarrow> string" where
  "config_print cfg =
     (case cfg of None \<Rightarrow> '''' | Some c \<Rightarrow> concat (map (\<lambda>l. l @ [newline]) (config_lines c)))"


subsection \<open>Every loaded configuration is valid\<close>

definition text_fits :: "nat \<Rightarrow> string \<Rightarrow> bool" where
  "text_fits n s \<longleftrightarrow> length s < n \<and> CHR 0x00 \<notin> set s"

text \<open>The strings fit their arrays and the numbers are values of a C \<^verbatim>\<open>int\<close>.\<close>
definition config_fits :: "gateway_config \<Rightarrow> bool" where
  "config_fits c \<longleftrightarrow> text_fits 64 (cfg_device_id c) \<and> text_fits 16 (cfg_log_level c)
     \<and> text_fits 128 (cfg_serial_device c) \<and> text_fits 256 (cfg_db_path c)
     \<and> text_fits 16 (cfg_upload_protocol c) \<and> text_fits 128 (cfg_alarm_device c)
     \<and> text_fits 256 (cfg_log_file c) \<and> text_fits 128 (cfg_upload_server_host c)
     \<and> is_c_int (cfg_sample_period_ms c) \<and> is_c_int (cfg_baudrate c)
     \<and> is_c_int (cfg_modbus_slave_addr c) \<and> is_c_int (cfg_max_cache_count c)
     \<and> is_c_int (cfg_upload_enabled c) \<and> is_c_int (cfg_upload_server_port c)
     \<and> is_c_int (cfg_upload_period_ms c) \<and> is_c_int (cfg_upload_batch_max c)
     \<and> is_c_int (cfg_upload_retry_max c)"

text \<open>What the rest of the gateway may assume of the checked fields.\<close>
definition config_valid :: "gateway_config \<Rightarrow> bool" where
  "config_valid c \<longleftrightarrow> config_fits c \<and> 0 < cfg_sample_period_ms c \<and> 0 < cfg_baudrate c
     \<and> 1 \<le> cfg_modbus_slave_addr c \<and> cfg_modbus_slave_addr c \<le> 247 \<and> 0 < cfg_max_cache_count c"

lemma text_fits_copy: "0 < n \<Longrightarrow> CHR 0x00 \<notin> set v \<Longrightarrow> text_fits n (copy_string d n v)"
  by (auto simp: text_fits_def copy_string_def snprintf_def dest: in_set_takeD)

lemma is_c_int_atoi: "is_c_int (atoi s)"
proof (cases "strtol10 s")
  case None
  then show ?thesis by (simp add: atoi_def is_c_int_def)
next
  case (Some p)
  then have "\<exists>i. fst p = clamp_long i" by (auto simp: strtol10_def split: prod.splits if_splits)
  then show ?thesis using Some by (auto simp: atoi_def is_c_int_def clamp_long_def split: prod.split)
qed


lemma trim_subset: "set (trim s) \<subseteq> set s"
  by (auto simp: trim_def Let_def dest!: set_dropWhileD dest: set_dropWhileD)


lemma cstr_no_nul: "CHR 0x00 \<notin> set (cstr s)"
  by (auto simp: cstr_def dest: set_takeWhileD)

lemma tl_subset: "x \<in> set (tl xs) \<Longrightarrow> x \<in> set xs"
  by (cases xs) simp_all

lemma parse_line_no_nul: "parse_line l = Assign k v \<Longrightarrow> CHR 0x00 \<notin> set v"
proof -
  assume "parse_line l = Assign k v"
  then have v: "v = trim (tl (dropWhile (\<lambda>c. c \<noteq> CHR ''='') (trim (cstr l))))"
    by (auto simp: parse_line_def Let_def split: if_splits)
  have "x \<in> set (cstr l)" if "x \<in> set v" for x
  proof -
    have "x \<in> set (tl (dropWhile (\<lambda>c. c \<noteq> CHR ''='') (trim (cstr l))))"
      using that trim_subset unfolding v by blast
    then have "x \<in> set (dropWhile (\<lambda>c. c \<noteq> CHR ''='') (trim (cstr l)))" by (rule tl_subset)
    then have "x \<in> set (trim (cstr l))" by (blast dest: set_dropWhileD)
    then show ?thesis using trim_subset by blast
  qed
  then show ?thesis using cstr_no_nul by blast
qed

lemma default_config_fits: "config_fits default_config"
  by (simp add: config_fits_def default_config_def text_fits_def copy_string_def snprintf_def is_c_int_def)

lemma validate_config_valid: "config_fits c \<Longrightarrow> config_valid (fst (validate_config c))"
  by (auto simp: validate_config_def config_valid_def config_fits_def is_c_int_def Let_def split: prod.splits)

subsection \<open>One field of the configuration\<close>

text \<open>The last value a list of lines assigns to a key.\<close>
fun last_value :: "string \<Rightarrow> string list \<Rightarrow> string option" where
  "last_value key [] = None"
| "last_value key (l # ls) =
     (case last_value key ls of Some v \<Rightarrow> Some v
      | None \<Rightarrow> (case parse_line l of Assign k v \<Rightarrow> if k = key then Some v else None | _ \<Rightarrow> None))"

text \<open>
  A field is bound to one key: a line with that key sets it to the converted value, a line with
  any other key leaves it alone. Then its final value comes from the last line with its key.
\<close>
locale keyed_field =
  fixes get :: "gateway_config \<Rightarrow> 'v"
    and key :: string
    and conv :: "string \<Rightarrow> 'v"
  assumes own_key: "\<exists>c'. set_key key v c = Some c' \<and> get c' = conv v"
    and other_key: "set_key k v c = Some c' \<Longrightarrow> k \<noteq> key \<Longrightarrow> get c' = get c"
begin

lemma get_load_line:
  "get (fst (load_line n l c)) =
     (case parse_line l of Assign k v \<Rightarrow> if k = key then conv v else get c | _ \<Rightarrow> get c)"
proof (cases "parse_line l")
  case (Assign k v)
  obtain c' where c': "set_key key v c = Some c'" "get c' = conv v" using own_key by blast
  show ?thesis
  proof (cases "k = key")
    case True
    with Assign c' show ?thesis by (simp add: load_line_def)
  next
    case False
    with Assign other_key [of k v c] show ?thesis by (simp add: load_line_def split: option.split)
  qed
qed (simp_all add: load_line_def)

lemma get_set_key: "set_key k v c = Some c' \<Longrightarrow> get c' = conv v \<or> get c' = get c"
  using own_key [of v c] other_key [of k v c c'] by (cases "k = key") auto

lemma get_load_lines:
  "get (fst (load_lines n ls c)) = (case last_value key ls of None \<Rightarrow> get c | Some v \<Rightarrow> conv v)"
proof (induction ls arbitrary: n c)
  case (Cons l ls)
  show ?case
    using Cons.IH [of "n + 1" "fst (load_line (n + 1) l c)"]
    by (auto simp: split_def get_load_line split: option.split config_line.split)
qed simp

end

text \<open>All seventeen keys of the code are such fields.\<close>

lemma copy_string_take: "0 < n \<Longrightarrow> copy_string d n v = take (n - 1) v"
  by (simp add: copy_string_def snprintf_def)

interpretation key_device_id: keyed_field cfg_device_id "''device_id''" "take 63"
  by unfold_locales (auto simp: set_key_def copy_string_take split: if_split_asm)

interpretation key_sample_period_ms: keyed_field cfg_sample_period_ms "''sample_period_ms''" atoi
  by unfold_locales (auto simp: set_key_def copy_string_take split: if_split_asm)

interpretation key_log_level: keyed_field cfg_log_level "''log_level''" "take 15"
  by unfold_locales (auto simp: set_key_def copy_string_take split: if_split_asm)

interpretation key_serial_device: keyed_field cfg_serial_device "''serial_device''" "take 127"
  by unfold_locales (auto simp: set_key_def copy_string_take split: if_split_asm)

interpretation key_baudrate: keyed_field cfg_baudrate "''baudrate''" atoi
  by unfold_locales (auto simp: set_key_def copy_string_take split: if_split_asm)

interpretation key_modbus_slave_addr: keyed_field cfg_modbus_slave_addr "''modbus_slave_addr''" atoi
  by unfold_locales (auto simp: set_key_def copy_string_take split: if_split_asm)

interpretation key_db_path: keyed_field cfg_db_path "''db_path''" "take 255"
  by unfold_locales (auto simp: set_key_def copy_string_take split: if_split_asm)

interpretation key_max_cache_count: keyed_field cfg_max_cache_count "''max_cache_count''" atoi
  by unfold_locales (auto simp: set_key_def copy_string_take split: if_split_asm)

interpretation key_upload_enabled: keyed_field cfg_upload_enabled "''upload_enabled''" atoi
  by unfold_locales (auto simp: set_key_def copy_string_take split: if_split_asm)

interpretation key_upload_protocol: keyed_field cfg_upload_protocol "''upload_protocol''" "take 15"
  by unfold_locales (auto simp: set_key_def copy_string_take split: if_split_asm)

interpretation key_upload_server_host: keyed_field cfg_upload_server_host "''upload_server_host''" "take 127"
  by unfold_locales (auto simp: set_key_def copy_string_take split: if_split_asm)

interpretation key_upload_server_port: keyed_field cfg_upload_server_port "''upload_server_port''" atoi
  by unfold_locales (auto simp: set_key_def copy_string_take split: if_split_asm)

interpretation key_upload_period_ms: keyed_field cfg_upload_period_ms "''upload_period_ms''" atoi
  by unfold_locales (auto simp: set_key_def copy_string_take split: if_split_asm)

interpretation key_upload_batch_max: keyed_field cfg_upload_batch_max "''upload_batch_max''" atoi
  by unfold_locales (auto simp: set_key_def copy_string_take split: if_split_asm)

interpretation key_upload_retry_max: keyed_field cfg_upload_retry_max "''upload_retry_max''" atoi
  by unfold_locales (auto simp: set_key_def copy_string_take split: if_split_asm)

interpretation key_log_file: keyed_field cfg_log_file "''log_file''" "take 255"
  by unfold_locales (auto simp: set_key_def copy_string_take split: if_split_asm)

interpretation key_alarm_device: keyed_field cfg_alarm_device "''alarm_device''" "take 127"
  by unfold_locales (auto simp: set_key_def copy_string_take split: if_split_asm)


lemma text_fits_update:
  "y = take m v \<or> y = x \<Longrightarrow> CHR 0x00 \<notin> set v \<Longrightarrow> text_fits n x \<Longrightarrow> m < n \<Longrightarrow> text_fits n y"
  by (auto simp: text_fits_def dest: in_set_takeD)

lemma is_c_int_update: "y = atoi v \<or> y = x \<Longrightarrow> is_c_int x \<Longrightarrow> is_c_int y"
  using is_c_int_atoi by auto

lemma set_key_fits:
  assumes s: "set_key k v c = Some c'" and f: "config_fits c" and n: "CHR 0x00 \<notin> set v"
  shows "config_fits c'"
proof -
  note t = key_device_id.get_set_key [OF s, THEN text_fits_update, OF n]
    key_log_level.get_set_key [OF s, THEN text_fits_update, OF n]
    key_serial_device.get_set_key [OF s, THEN text_fits_update, OF n]
    key_db_path.get_set_key [OF s, THEN text_fits_update, OF n]
    key_upload_protocol.get_set_key [OF s, THEN text_fits_update, OF n]
    key_alarm_device.get_set_key [OF s, THEN text_fits_update, OF n]
    key_log_file.get_set_key [OF s, THEN text_fits_update, OF n]
    key_upload_server_host.get_set_key [OF s, THEN text_fits_update, OF n]
  note i = key_sample_period_ms.get_set_key [OF s, THEN is_c_int_update]
    key_baudrate.get_set_key [OF s, THEN is_c_int_update]
    key_modbus_slave_addr.get_set_key [OF s, THEN is_c_int_update]
    key_max_cache_count.get_set_key [OF s, THEN is_c_int_update]
    key_upload_enabled.get_set_key [OF s, THEN is_c_int_update]
    key_upload_server_port.get_set_key [OF s, THEN is_c_int_update]
    key_upload_period_ms.get_set_key [OF s, THEN is_c_int_update]
    key_upload_batch_max.get_set_key [OF s, THEN is_c_int_update]
    key_upload_retry_max.get_set_key [OF s, THEN is_c_int_update]
  show ?thesis using f unfolding config_fits_def by (simp add: t i)
qed

lemma load_line_fits: "config_fits c \<Longrightarrow> config_fits (fst (load_line n l c))"
  by (auto simp: load_line_def dest: parse_line_no_nul set_key_fits split: config_line.split option.split)

lemma load_lines_fits: "config_fits c \<Longrightarrow> config_fits (fst (load_lines n ls c))"
proof (induction ls arbitrary: n c)
  case (Cons l ls)
  then show ?case using load_line_fits [of c "n + 1" l] by (simp add: split_def)
qed simp

text \<open>
  Property C27. Whatever bytes the configuration file holds, a load that returns 0 yields a
  configuration the gateway can run with: a positive sample period, baud rate and cache limit, a
  slave address between 1 and 247, every number a C \<^verbatim>\<open>int\<close>, and every string shorter than its
  array, so NUL-terminated inside it. A load that returns \<^verbatim>\<open>-1\<close> for a missing file leaves the
  default configuration, which is valid too.
\<close>
theorem config_load_valid:
  assumes "config_load (Some path) contents (Some c) = (rc, Some c', errs)"
  shows "config_valid c' \<and> (rc = 0 \<longleftrightarrow> contents \<noteq> None) \<and> (rc = 0 \<or> rc = -1)"
proof (cases contents)
  case None
  then show ?thesis
    using assms default_config_fits by (auto simp: config_load_def config_valid_def default_config_def)
next
  case (Some t)
  have "config_valid (fst (validate_config (fst (load_lines 0 (read_lines t) default_config))))"
    by (intro validate_config_valid load_lines_fits default_config_fits)
  with assms Some show ?thesis by (auto simp: config_load_def split_def)
qed

theorem config_load_valid_witness:
  "\<exists>c' errs. config_load (Some ''gw.conf'') (Some ''baudrate=-5'') (Some default_config) = (0, Some c', errs)
     \<and> config_valid c'"
proof -
  obtain rc c' errs where l: "config_load (Some ''gw.conf'') (Some ''baudrate=-5'') (Some default_config)
      = (rc, Some c', errs)" by (simp add: config_load_def split_def)
  from config_load_valid [OF l] l show ?thesis by auto
qed

subsection \<open>The last assignment wins\<close>

definition text_value :: "nat \<Rightarrow> string \<Rightarrow> string \<Rightarrow> string list \<Rightarrow> string" where
  "text_value n key dflt ls =
     (case last_value key ls of None \<Rightarrow> dflt | Some v \<Rightarrow> take (n - 1) v)"

definition int_value :: "string \<Rightarrow> int \<Rightarrow> string list \<Rightarrow> int" where
  "int_value key dflt ls = (case last_value key ls of None \<Rightarrow> dflt | Some v \<Rightarrow> atoi v)"

text \<open>The configuration a list of lines describes, field by field.\<close>
definition config_described :: "string list \<Rightarrow> gateway_config" where
  "config_described ls =
     \<lparr>cfg_device_id = text_value 64 ''device_id'' ''water_gateway_001'' ls,
      cfg_sample_period_ms = int_value ''sample_period_ms'' 1000 ls,
      cfg_log_level = text_value 16 ''log_level'' ''info'' ls,
      cfg_serial_device = text_value 128 ''serial_device'' ''/dev/ttyUSB0'' ls,
      cfg_baudrate = int_value ''baudrate'' 9600 ls,
      cfg_modbus_slave_addr = int_value ''modbus_slave_addr'' 1 ls,
      cfg_db_path = text_value 256 ''db_path'' ''water_gateway.db'' ls,
      cfg_max_cache_count = int_value ''max_cache_count'' 100000 ls,
      cfg_upload_enabled = int_value ''upload_enabled'' 1 ls,
      cfg_upload_protocol = text_value 16 ''upload_protocol'' ''tcp'' ls,
      cfg_alarm_device = text_value 128 ''alarm_device'' ''/dev/newchrled'' ls,
      cfg_log_file = text_value 256 ''log_file'' ''stdout'' ls,
      cfg_upload_server_host = text_value 128 ''upload_server_host'' ''192.168.2.150'' ls,
      cfg_upload_server_port = int_value ''upload_server_port'' 18800 ls,
      cfg_upload_period_ms = int_value ''upload_period_ms'' 5000 ls,
      cfg_upload_batch_max = int_value ''upload_batch_max'' 20 ls,
      cfg_upload_retry_max = int_value ''upload_retry_max'' 3 ls\<rparr>"

lemma load_lines_described: "fst (load_lines 0 ls default_config) = config_described ls"
  by (rule gateway_config.equality)
    (simp_all add: config_described_def default_config_def copy_string_take text_value_def int_value_def
      key_device_id.get_load_lines
      key_sample_period_ms.get_load_lines
      key_log_level.get_load_lines
      key_serial_device.get_load_lines
      key_baudrate.get_load_lines
      key_modbus_slave_addr.get_load_lines
      key_db_path.get_load_lines
      key_max_cache_count.get_load_lines
      key_upload_enabled.get_load_lines
      key_upload_protocol.get_load_lines
      key_alarm_device.get_load_lines
      key_log_file.get_load_lines
      key_upload_server_host.get_load_lines
      key_upload_server_port.get_load_lines
      key_upload_period_ms.get_load_lines
      key_upload_batch_max.get_load_lines
      key_upload_retry_max.get_load_lines
      split: option.split)

text \<open>
  Property C26. The meaning of a file: every field of the loaded configuration is the value of
  the last line that assigns its key, cut to its array or read with \<^verbatim>\<open>atoi\<close>, and the default if no
  line does; the four checked fields are then replaced by their defaults when out of range.
  Comments, blank lines, lines without \<^verbatim>\<open>=\<close> and unknown keys have no effect.
\<close>
theorem config_load_described:
  "config_load (Some path) (Some txt) (Some c) =
     (0, Some (fst (validate_config (config_described (read_lines txt)))),
      snd (load_lines 0 (read_lines txt) default_config)
        @ snd (validate_config (config_described (read_lines txt))))"
  by (simp add: config_load_def split_def load_lines_described)


subsection \<open>Printing and loading again\<close>

text \<open>A printed assignment: key, blanks, \<^verbatim>\<open>=\<close>, blank, value.\<close>
definition kv_line :: "string \<Rightarrow> nat \<Rightarrow> string \<Rightarrow> string" where
  "kv_line k n v = ''  '' @ k @ replicate n (CHR '' '') @ ''= '' @ v"

definition config_kvs :: "gateway_config \<Rightarrow> (string \<times> nat \<times> string) list" where
  "config_kvs c =
     [(''device_id'', 8, cfg_device_id c), (''sample_period_ms'', 1, fmt_int (cfg_sample_period_ms c)),
      (''log_level'', 8, cfg_log_level c), (''serial_device'', 4, cfg_serial_device c),
      (''baudrate'', 9, fmt_int (cfg_baudrate c)), (''modbus_slave_addr'', 0, fmt_int (cfg_modbus_slave_addr c)),
      (''db_path'', 9, cfg_db_path c), (''max_cache_count'', 1, fmt_int (cfg_max_cache_count c)),
      (''upload_enabled'', 2, fmt_int (cfg_upload_enabled c)), (''upload_protocol'', 1, cfg_upload_protocol c),
      (''upload_server_host'', 1, cfg_upload_server_host c),
      (''upload_server_port'', 1, fmt_int (cfg_upload_server_port c)),
      (''upload_period_ms'', 3, fmt_int (cfg_upload_period_ms c)),
      (''upload_batch_max'', 3, fmt_int (cfg_upload_batch_max c)),
      (''upload_retry_max'', 3, fmt_int (cfg_upload_retry_max c)),
      (''log_file'', 11, cfg_log_file c), (''alarm_device'', 7, cfg_alarm_device c)]"

lemma config_lines_kvs:
  "config_lines c = ''config:'' # map (\<lambda>(k, n, v). kv_line k n v) (config_kvs c)"
  by (simp add: config_lines_def config_kvs_def kv_line_def eval_nat_numeral)

text \<open>A key that stands alone, and a value that trimming leaves alone.\<close>
definition key_ok :: "string \<Rightarrow> bool" where
  "key_ok k \<longleftrightarrow> k \<noteq> [] \<and> list_all (\<lambda>c. \<not> isspace c \<and> c \<noteq> CHR ''='' \<and> c \<noteq> CHR 0x00) k
     \<and> hd k \<noteq> CHR ''#'' \<and> hd k \<noteq> CHR '';''"

definition value_ok :: "string \<Rightarrow> bool" where
  "value_ok v \<longleftrightarrow> CHR 0x00 \<notin> set v \<and> newline \<notin> set v
     \<and> (v = [] \<or> (\<not> isspace (hd v) \<and> \<not> isspace (last v)))"

definition blank :: "string \<Rightarrow> bool" where
  "blank s \<longleftrightarrow> list_all isspace s"

lemma dropWhile_blank: "blank ws \<Longrightarrow> dropWhile isspace (ws @ s) = dropWhile isspace s"
  by (induction ws) (simp_all add: blank_def)

lemma dropWhile_stop: "s = [] \<or> \<not> isspace (hd s) \<Longrightarrow> dropWhile isspace s = s"
  by (cases s) auto

lemma trim_padded:
  assumes "blank a" and "blank b" and "s = [] \<or> (\<not> isspace (hd s) \<and> \<not> isspace (last s))"
  shows "trim (a @ s @ b) = s"
proof (cases "s = []")
  case True
  have "dropWhile isspace b = []" using dropWhile_blank [OF assms(2), of "[]"] by simp
  then show ?thesis using True assms(1) by (simp add: trim_def dropWhile_blank)
next
  case False
  then have "dropWhile isspace (a @ s @ b) = s @ b"
    using assms(1,3) by (cases s) (simp_all add: dropWhile_blank)
  moreover have "blank (rev b)" using assms(2) by (simp add: blank_def)
  then have "dropWhile isspace (rev b @ rev s) = rev s"
    using False assms(3) by (simp add: dropWhile_blank dropWhile_stop hd_rev)
  ultimately show ?thesis using False by (simp add: trim_def)
qed

lemma isspace_eq: "\<not> isspace (CHR ''='')" "isspace (CHR '' '')" "isspace newline"
  by (simp_all add: isspace_def Let_def)

lemma split_at_first:
  assumes "x \<notin> set xs"
  shows "takeWhile (\<lambda>c. c \<noteq> x) (xs @ x # ys) = xs" "dropWhile (\<lambda>c. c \<noteq> x) (xs @ x # ys) = x # ys"
  using assms by (induction xs) auto

lemma parse_kv_line:
  assumes k: "key_ok k" and v: "value_ok v"
  shows "parse_line (kv_line k n v @ [newline]) = Assign k v"
proof -
  let ?p = "replicate n (CHR '' '')"
  let ?core = "k @ ?p @ ''='' @ (if v = [] then [] else '' '' @ v)"
  have kc: "k \<noteq> []" "\<And>c. c \<in> set k \<Longrightarrow> \<not> isspace c \<and> c \<noteq> CHR ''='' \<and> c \<noteq> CHR 0x00"
    "hd k \<noteq> CHR ''#''" "hd k \<noteq> CHR '';''"
    using k by (auto simp: key_ok_def list_all_iff)
  have vc: "CHR 0x00 \<notin> set v" "v = [] \<or> (\<not> isspace (hd v) \<and> \<not> isspace (last v))"
    using v by (auto simp: value_ok_def)
  have "CHR 0x00 \<notin> set (kv_line k n v @ [newline])"
    using kc vc by (auto simp: kv_line_def)
  then have c: "cstr (kv_line k n v @ [newline]) = kv_line k n v @ [newline]"
    unfolding cstr_def by (intro takeWhile_eq_all_conv [THEN iffD2]) auto
  have e: "kv_line k n v @ [newline] = ''  '' @ ?core @ ((if v = [] then '' '' else []) @ [newline])"
    by (simp add: kv_line_def)
  have t: "trim (kv_line k n v @ [newline]) = ?core"
    unfolding e
  proof (rule trim_padded)
    show "blank ''  ''" "blank ((if v = [] then '' '' else []) @ [newline])"
      by (simp_all add: blank_def isspace_eq)
    show "?core = [] \<or> (\<not> isspace (hd ?core) \<and> \<not> isspace (last ?core))"
      using kc vc isspace_eq by (auto simp: hd_append)
  qed
  have before: "takeWhile (\<lambda>c. c \<noteq> CHR ''='') ?core = k @ ?p"
    and after: "dropWhile (\<lambda>c. c \<noteq> CHR ''='') ?core = ''='' @ (if v = [] then [] else '' '' @ v)"
  proof -
    have core: "?core = (k @ ?p) @ CHR ''='' # (if v = [] then [] else '' '' @ v)" by simp
    have no: "CHR ''='' \<notin> set (k @ ?p)" using kc(2) by auto
    show "takeWhile (\<lambda>c. c \<noteq> CHR ''='') ?core = k @ ?p"
      "dropWhile (\<lambda>c. c \<noteq> CHR ''='') ?core = ''='' @ (if v = [] then [] else '' '' @ v)"
      unfolding core split_at_first [OF no] by simp_all
  qed
  have tk: "trim (k @ ?p) = k"
  proof -
    have "k = [] \<or> (\<not> isspace (hd k) \<and> \<not> isspace (last k))" using kc by auto
    moreover have "blank ?p" "blank []" by (simp_all add: blank_def list_all_iff isspace_eq)
    ultimately show ?thesis using trim_padded [of "[]" ?p k] by simp
  qed
  have tv: "trim (if v = [] then [] else '' '' @ v) = v"
  proof -
    have "blank '' ''" "blank []" by (simp_all add: blank_def isspace_eq)
    then show ?thesis using trim_padded [of "'' ''" "[]" v] trim_padded [of "[]" "[]" v] vc(2) by (cases v) simp_all
  qed
  have "?core \<noteq> []" "hd ?core \<noteq> CHR ''#''" "hd ?core \<noteq> CHR '';''" "CHR ''='' \<in> set ?core"
    using kc by (simp_all add: hd_append)
  then show ?thesis
    unfolding parse_line_def c t Let_def before after tk by (simp add: tv del: append_Cons)
qed


lemma fgets_chunk_line:
  "newline \<notin> set l \<Longrightarrow> length l < n \<Longrightarrow> fgets_chunk n (l @ newline # r) = (l @ [newline], r)"
proof (induction l arbitrary: n)
  case Nil
  then show ?case by (cases n) simp_all
next
  case (Cons c l)
  then show ?case by (cases n) auto
qed

lemma read_lines_concat:
  "list_all (\<lambda>l. newline \<notin> set l \<and> length l < 255) ls \<Longrightarrow>
     read_lines (concat (map (\<lambda>l. l @ [newline]) ls)) = map (\<lambda>l. l @ [newline]) ls"
proof (induction ls)
  case (Cons l ls)
  then show ?case by (subst read_lines.simps) (simp add: fgets_chunk_line)
qed (simp add: read_lines.simps)

definition known_keys :: "string list" where
  "known_keys = [''device_id'', ''sample_period_ms'', ''log_level'', ''serial_device'', ''baudrate'',
     ''modbus_slave_addr'', ''db_path'', ''max_cache_count'', ''upload_enabled'', ''upload_protocol'',
     ''upload_server_host'', ''upload_server_port'', ''upload_period_ms'', ''upload_batch_max'',
     ''upload_retry_max'', ''log_file'', ''alarm_device'']"

lemma known_key_ok: "k \<in> set known_keys \<Longrightarrow> key_ok k"
  by (auto simp: known_keys_def key_ok_def isspace_def Let_def)

lemma known_key_set: "k \<in> set known_keys \<Longrightarrow> \<exists>c'. set_key k v c = Some c'"
  by (auto simp: known_keys_def set_key_def)

lemma load_lines_kvs:
  "list_all (\<lambda>(k, n, v). k \<in> set known_keys \<and> value_ok v) kvs \<Longrightarrow>
     load_lines m (map (\<lambda>(k, n, v). kv_line k n v @ [newline]) kvs) c
       = (fold (\<lambda>(k, n, v) c. the (set_key k v c)) kvs c, [])"
proof (induction kvs arbitrary: m c)
  case (Cons x kvs)
  obtain k n v where x: "x = (k, n, v)" by (cases x) auto
  with Cons.prems have k: "k \<in> set known_keys" and v: "value_ok v" by simp_all
  obtain c' where c': "set_key k v c = Some c'" using known_key_set [OF k] by blast
  have "load_line (m + 1) (kv_line k n v @ [newline]) c = (c', [])"
    by (simp add: load_line_def parse_kv_line [OF known_key_ok [OF k] v] c')
  then show ?case using Cons x c' by simp
qed simp

lemma known_key_newline: "k \<in> set known_keys \<Longrightarrow> newline \<notin> set k"
  using known_key_ok [of k] isspace_eq(3) by (auto simp: key_ok_def list_all_iff)

text \<open>Strings that survive: no control characters, no blanks at the ends, short enough a line.\<close>
definition config_clean :: "gateway_config \<Rightarrow> bool" where
  "config_clean c \<longleftrightarrow> list_all value_ok [cfg_device_id c, cfg_log_level c, cfg_serial_device c,
       cfg_db_path c, cfg_upload_protocol c, cfg_upload_server_host c, cfg_log_file c, cfg_alarm_device c]
     \<and> length (cfg_db_path c) < 235 \<and> length (cfg_log_file c) < 232"

lemma fmt_int_chars: "c \<in> set (fmt_int i) \<Longrightarrow> isdigit c \<or> c = CHR ''-''"
  using fmt_nat_digits by (auto simp: fmt_int_def split: if_splits)

lemma digit_not_space: "isdigit c \<or> c = CHR ''-'' \<Longrightarrow> \<not> isspace c \<and> c \<noteq> CHR 0x00 \<and> c \<noteq> newline"
  by (auto simp: isdigit_def isspace_def Let_def)

lemma value_ok_fmt_int: "value_ok (fmt_int i)"
proof -
  have c: "\<forall>c \<in> set (fmt_int i). \<not> isspace c \<and> c \<noteq> CHR 0x00 \<and> c \<noteq> newline"
    using fmt_int_chars digit_not_space by blast
  then have "fmt_int i = [] \<or> (\<not> isspace (hd (fmt_int i)) \<and> \<not> isspace (last (fmt_int i)))"
    using hd_in_set last_in_set by blast
  with c show ?thesis unfolding value_ok_def by blast
qed

lemma length_fmt_int: "is_c_int i \<Longrightarrow> length (fmt_int i) \<le> 11"
  using length_fmt_nat_le [of "nat (- i)" 10] length_fmt_nat_le [of "nat i" 10]
  by (auto simp: fmt_int_def is_c_int_def nat_less_iff)

lemma length_fmt_int_less: "is_c_int i \<Longrightarrow> 12 \<le> m \<Longrightarrow> length (fmt_int i) < m"
  using length_fmt_int [of i] by simp

lemma default_config_clean: "config_clean default_config"
  by (simp add: config_clean_def default_config_def copy_string_take value_ok_def isspace_def Let_def)


text \<open>
  Property C28. Round trip: the text \<^verbatim>\<open>config_print\<close> shows for a valid configuration, fed back to
  \<^verbatim>\<open>config_load\<close>, gives exactly that configuration, whatever was in the structure before; the
  only complaint is the heading, which has no \<^verbatim>\<open>=\<close>. The strings must not start or end in blanks
  or hold newlines, and the two paths must leave the printed line below the 255 characters
  \<^verbatim>\<open>fgets\<close> reads at once.
\<close>
theorem config_print_load:
  assumes "config_valid c" and "config_clean c"
  shows "config_load (Some path) (Some (config_print (Some c))) (Some c0)
    = (0, Some c, [''invalid config line 1: config:''])"
proof -
  have f: "config_fits c" using assms(1) by (simp add: config_valid_def)
  let ?ls = "map (\<lambda>(k, n, v). kv_line k n v) (config_kvs c)"
  have kvs: "list_all (\<lambda>(k, n, v). k \<in> set known_keys \<and> value_ok v) (config_kvs c)"
    using assms(2) by (simp add: config_kvs_def known_keys_def config_clean_def value_ok_fmt_int)
  have "list_all (\<lambda>(k, n, v). length k + n + length v < 251) (config_kvs c)"
    using f assms(2)
    by (auto simp: config_kvs_def config_fits_def config_clean_def text_fits_def length_fmt_int_less)
  then have "list_all (\<lambda>l. newline \<notin> set l \<and> length l < 255) (config_lines c)"
    using kvs known_key_newline unfolding config_lines_kvs
    by (auto simp: list_all_iff kv_line_def value_ok_def dest!: bspec)
  then have "read_lines (config_print (Some c)) = map (\<lambda>l. l @ [newline]) (config_lines c)"
    unfolding config_print_def by (simp only: option.case read_lines_concat)
  also have "\<dots> = (''config:'' @ [newline]) # map (\<lambda>(k, n, v). kv_line k n v @ [newline]) (config_kvs c)"
    unfolding config_lines_kvs by (simp add: split_def)
  finally have r: "read_lines (config_print (Some c))
    = (''config:'' @ [newline]) # map (\<lambda>(k, n, v). kv_line k n v @ [newline]) (config_kvs c)" .
  have h: "load_line 1 (''config:'' @ [newline]) d = (d, [''invalid config line 1: config:''])" for d
    by (simp add: load_line_def parse_line_def cstr_def trim_def isspace_def Let_def fmt_int_def
        fmt_nat.simps dec_digit_def char_of_def bit_simps)
  have l: "fold (\<lambda>(k, n, v) c. the (set_key k v c)) (config_kvs c) default_config = c"
    using f by (intro gateway_config.equality)
      (simp_all add: config_kvs_def set_key_def copy_string_take config_fits_def text_fits_def atoi_fmt_int)
  have v: "validate_config c = (c, [])"
    using assms(1) by (simp add: validate_config_def config_valid_def Let_def)
  show ?thesis
    unfolding config_load_def option.case prod.case Let_def r
    by (simp only: load_lines.simps add_0 h load_lines_kvs [OF kvs] l v prod.case append_Nil2 append_Nil)
qed


theorem config_print_load_witness:
  "config_load (Some ''gw.conf'') (Some (config_print (Some default_config)))
     (Some (default_config\<lparr>cfg_baudrate := 115200\<rparr>))
   = (0, Some default_config, [''invalid config line 1: config:''])"
proof -
  have "config_valid default_config"
    using default_config_fits by (simp add: config_valid_def default_config_def)
  from config_print_load [OF this default_config_clean] show ?thesis .
qed

end
