(* ===== verification/Logger.thy ===== *)
theory Logger
  imports Gw_Prelude
begin

section \<open>The logger (\<^verbatim>\<open>app/src/logger.c\<close>)\<close>

text \<open>
  The two static variables \<^verbatim>\<open>g_log_level\<close> and \<^verbatim>\<open>g_log_file\<close> and what is written: the lines on
  standard output, on standard error and in the files, oldest first. A log call of another
  component is a pair of a level and the formatted text; \<^verbatim>\<open>strftime\<close> of the local time is an
  argument.
\<close>

datatype log_level = LOG_LEVEL_DEBUG | LOG_LEVEL_INFO | LOG_LEVEL_WARN | LOG_LEVEL_ERROR

type_synonym log_msg = "log_level \<times> string"

primrec level_code :: "log_level \<Rightarrow> nat" where
  "level_code LOG_LEVEL_DEBUG = 0"
| "level_code LOG_LEVEL_INFO = 1"
| "level_code LOG_LEVEL_WARN = 2"
| "level_code LOG_LEVEL_ERROR = 3"

text \<open>Enumerators compare by their numbers.\<close>

instantiation log_level :: linorder
begin

definition less_eq_log_level :: "log_level \<Rightarrow> log_level \<Rightarrow> bool" where
  "less_eq_log_level a b \<longleftrightarrow> level_code a \<le> level_code b"

definition less_log_level :: "log_level \<Rightarrow> log_level \<Rightarrow> bool" where
  "less_log_level a b \<longleftrightarrow> level_code a < level_code b"

instance
proof
  fix x y z :: log_level
  show "(x < y) = (x \<le> y \<and> \<not> y \<le> x)" by (auto simp: less_log_level_def less_eq_log_level_def)
  show "x \<le> x" by (simp add: less_eq_log_level_def)
  show "x \<le> y \<Longrightarrow> y \<le> z \<Longrightarrow> x \<le> z" by (simp add: less_eq_log_level_def)
  show "x \<le> y \<Longrightarrow> y \<le> x \<Longrightarrow> x = y" by (cases x; cases y) (simp_all add: less_eq_log_level_def)
  show "x \<le> y \<or> y \<le> x" by (auto simp: less_eq_log_level_def)
qed

end

record logger =
  g_log_level :: log_level
  g_log_file :: "string option"
  log_stdout :: "string list"
  log_stderr :: "string list"
  log_files :: "string \<Rightarrow> string list"

definition logger_start :: "(string \<Rightarrow> string list) \<Rightarrow> logger" where
  "logger_start files = \<lparr>g_log_level = LOG_LEVEL_INFO, g_log_file = None, log_stdout = [],
     log_stderr = [], log_files = files\<rparr>"

primrec logger_level_name :: "log_level \<Rightarrow> string" where
  "logger_level_name LOG_LEVEL_DEBUG = ''DEBUG''"
| "logger_level_name LOG_LEVEL_INFO = ''INFO''"
| "logger_level_name LOG_LEVEL_WARN = ''WARN''"
| "logger_level_name LOG_LEVEL_ERROR = ''ERROR''"

text \<open>\<open>None\<close> is the return code \<^verbatim>\<open>-1\<close>.\<close>
definition logger_level_from_string :: "string option \<Rightarrow> log_level option" where
  "logger_level_from_string level =
     (case level of None \<Rightarrow> None
      | Some s \<Rightarrow>
          if s = ''debug'' \<or> s = ''DEBUG'' then Some LOG_LEVEL_DEBUG
          else if s = ''info'' \<or> s = ''INFO'' then Some LOG_LEVEL_INFO
          else if s = ''warn'' \<or> s = ''WARN'' then Some LOG_LEVEL_WARN
          else if s = ''error'' \<or> s = ''ERROR'' then Some LOG_LEVEL_ERROR
          else None)"

definition logger_init :: "string option \<Rightarrow> logger \<Rightarrow> logger" where
  "logger_init level l =
     (case logger_level_from_string level of
        Some v \<Rightarrow> l\<lparr>g_log_level := v\<rparr>
      | None \<Rightarrow> l\<lparr>g_log_level := LOG_LEVEL_INFO\<rparr>)"

definition logger_set_level :: "log_level \<Rightarrow> logger \<Rightarrow> logger" where
  "logger_set_level level l = l\<lparr>g_log_level := level\<rparr>"

text \<open>\<open>can_open\<close> says which paths \<^verbatim>\<open>fopen(path, "a")\<close> opens.\<close>
definition logger_open_log_file :: "(string \<Rightarrow> bool) \<Rightarrow> string option \<Rightarrow> logger \<Rightarrow> logger" where
  "logger_open_log_file can_open path l =
     (let l1 = l\<lparr>g_log_file := None\<rparr>
      in (case path of None \<Rightarrow> l1
          | Some p \<Rightarrow>
              if p = '''' \<or> p = ''stdout'' \<or> p = ''STDOUT'' then l1
              else if can_open p then l1\<lparr>g_log_file := Some p\<rparr>
              else l1\<lparr>log_stderr := log_stderr l1 @ [''logger: failed to open log file: '' @ p]\<rparr>))"

definition logger_close_log_file :: "logger \<Rightarrow> logger" where
  "logger_close_log_file l = l\<lparr>g_log_file := None\<rparr>"

definition log_line :: "string \<Rightarrow> log_msg \<Rightarrow> string" where
  "log_line time_buf m =
     ''['' @ time_buf @ ''] ['' @ logger_level_name (fst m) @ ''] '' @ snd m"

definition logger_log :: "string \<Rightarrow> log_msg \<Rightarrow> logger \<Rightarrow> logger" where
  "logger_log time_buf m l =
     (if fst m < g_log_level l then l
      else
        (let l1 = l\<lparr>log_stdout := log_stdout l @ [log_line time_buf m]\<rparr>
         in (case g_log_file l1 of None \<Rightarrow> l1
             | Some p \<Rightarrow>
                 l1\<lparr>log_files := (log_files l1)(p := log_files l1 p @ [log_line time_buf m])\<rparr>)))"

text \<open>A sequence of log calls, each with the time it is made.\<close>
definition log_all :: "(string \<times> log_msg) list \<Rightarrow> logger \<Rightarrow> logger" where
  "log_all calls l = fold (\<lambda>(t, m). logger_log t m) calls l"

subsection \<open>What reaches the outputs\<close>

definition shown_lines :: "log_level \<Rightarrow> (string \<times> log_msg) list \<Rightarrow> string list" where
  "shown_lines level calls = [log_line t m. (t, m) \<leftarrow> calls, level \<le> fst m]"

lemma log_all_simps [simp]:
  "log_all [] l = l"
  "log_all ((t, m) # calls) l = log_all calls (logger_log t m l)"
  by (simp_all add: log_all_def)

lemma shown_lines_simps [simp]:
  "shown_lines level [] = []"
  "shown_lines level ((t, m) # calls) =
     (if level \<le> fst m then [log_line t m] else []) @ shown_lines level calls"
  by (simp_all add: shown_lines_def)

lemma logger_log_config [simp]:
  "g_log_level (logger_log t m l) = g_log_level l" "g_log_file (logger_log t m l) = g_log_file l"
  by (simp_all add: logger_log_def Let_def split: option.split)

text \<open>
  The logger loses and duplicates nothing: after any sequence of log calls standard
  output has grown by exactly the lines of the calls at or above the configured level, in call
  order; the open log file has grown by the same lines, and every other file, the level and the
  choice of the file are unchanged.
\<close>
theorem logger_outputs_exact:
  "log_all calls l = l\<lparr>log_stdout := log_stdout l @ shown_lines (g_log_level l) calls,
     log_files := (\<lambda>p. if g_log_file l = Some p
                       then log_files l p @ shown_lines (g_log_level l) calls else log_files l p)\<rparr>"
proof (induction calls arbitrary: l)
  case Nil
  show ?case by (rule logger.equality) (simp_all add: fun_eq_iff)
next
  case (Cons c calls)
  obtain t m where c: "c = (t, m)" by (cases c) auto
  show ?case
    unfolding c log_all_simps Cons.IH
    by (cases "g_log_file l") (auto simp: logger_log_def not_le fun_eq_iff intro!: logger.equality)
qed

text \<open>
  Level names: each of the four names, in lower or in upper case, selects its
  level; any other string, and no string at all, selects \<^verbatim>\<open>INFO\<close>; and a level is printed under
  the very name that selects it.
\<close>
theorem logger_init_levels:
  "g_log_level (logger_init (Some (logger_level_name v)) l) = v
   \<and> (logger_level_from_string s = None \<longleftrightarrow>
        s \<notin> Some ` {''debug'', ''DEBUG'', ''info'', ''INFO'', ''warn'', ''WARN'', ''error'', ''ERROR''})
   \<and> g_log_level (logger_init s l) =
       (case logger_level_from_string s of None \<Rightarrow> LOG_LEVEL_INFO | Some u \<Rightarrow> u)"
proof (intro conjI)
  show "g_log_level (logger_init (Some (logger_level_name v)) l) = v"
    by (cases v) (simp_all add: logger_init_def logger_level_from_string_def)
  show "logger_level_from_string s = None \<longleftrightarrow>
        s \<notin> Some ` {''debug'', ''DEBUG'', ''info'', ''INFO'', ''warn'', ''WARN'', ''error'', ''ERROR''}"
    by (cases s) (auto simp: logger_level_from_string_def)
qed (simp add: logger_init_def split: option.split)

end
