(* ===== verification/Gateway_Collect.thy ===== *)
theory Gateway_Collect
  imports Modbus_Rtu Sample_Queue Gateway_Config Logger
begin

section \<open>The collector threads (\<^verbatim>\<open>app/src/main.c\<close>)\<close>

text \<open>
  \<^verbatim>\<open>collect_thread\<close> reads the seven registers of the slave and falls back to mock data,
  \<^verbatim>\<open>collect_thread_mock\<close> only generates mock data; both push one sample per period into the raw
  queue. An iteration meets the bus, the contents of its uninitialised register array, the clock,
  and the queue with the wake-ups of its push. The static mock counter is explicit state. The
  loops run over the iterations made before \<^verbatim>\<open>g_shutdown\<close> is seen set.
\<close>

subsection \<open>Signal, sleep\<close>

text \<open>The flag \<^verbatim>\<open>g_shutdown\<close> after the handler, whatever the signal and the flag before.\<close>
definition signal_handler :: "int \<Rightarrow> bool \<Rightarrow> bool" where
  "signal_handler sig g_shutdown = True"

text \<open>The microseconds handed to \<^verbatim>\<open>usleep\<close>, if it is called.\<close>
definition sleep_ms :: "int \<Rightarrow> u32 option" where
  "sleep_ms ms = (if ms \<le> 0 then None else Some (word_of_int ms * 1000))"

subsection \<open>One iteration\<close>

record collect_ctx =
  cc_cfg :: gateway_config
  cc_serial_fd :: int

record collect_iteration =
  ci_bus :: bus_env
  ci_values :: "u16 list"
  ci_now :: timeval
  ci_queue :: sample_queue
  ci_wakeups :: "wakeup list"

record collect_result =
  co_modbus_ok :: bool
  co_mock_sequence :: u32
  co_pushed :: "water_sample list"
  co_queues :: "sample_queue list"
  co_logs :: "log_msg list"
  co_stdout :: "string list"
  co_sleeps :: "u32 option list"

text \<open>The return code of the read, the values and the trace; \<open>None\<close> while it is blocked.\<close>
definition collect_read ::
    "collect_ctx \<Rightarrow> collect_iteration \<Rightarrow> (int \<times> u16 list option \<times> string list) option" where
  "collect_read ctx it =
     (if cc_serial_fd ctx \<ge> 0
      then map_option (\<lambda>r. (res_code r, res_values r, res_stdout r))
             (modbus_read_registers (ci_bus it) (cc_serial_fd ctx)
                (word_of_int (cfg_modbus_slave_addr (cc_cfg ctx))) 0x0000 7 (Some (ci_values it)) 7 500)
      else Some (-1, Some (ci_values it), []))"

text \<open>The sample of an iteration: new \<^verbatim>\<open>modbus_ok\<close>, new mock counter, sample, log calls.\<close>
definition collect_sample ::
    "timeval \<Rightarrow> int \<Rightarrow> u16 list option \<Rightarrow> bool \<Rightarrow> u32 \<Rightarrow> bool \<times> u32 \<times> water_sample \<times> log_msg list" where
  "collect_sample now reg_count values modbus_ok g =
     (if reg_count = 7 then
        (True, g, the (sample_from_modbus_regs now (Some zero_sample) values 7),
         if \<not> modbus_ok then [(LOG_LEVEL_INFO, ''modbus acquisition established'')] else [])
      else
        (case sample_generate_mock now g (Some zero_sample) of
           (g', s) \<Rightarrow> (False, g', the s,
             if modbus_ok then [(LOG_LEVEL_WARN, ''modbus read lost, falling back to mock data'')] else [])))"

text \<open>The push into the raw queue and the sleep that end every iteration.\<close>
definition collect_push ::
    "collect_ctx \<Rightarrow> collect_iteration \<Rightarrow> water_sample \<Rightarrow> (sample_queue \<times> u32 option) option" where
  "collect_push ctx it s =
     (case sample_queue_push (Some (ci_queue it)) (Some s) 100 (ci_wakeups it) of None \<Rightarrow> None
      | Some (_, q) \<Rightarrow> Some (the q, sleep_ms (cfg_sample_period_ms (cc_cfg ctx))))"

definition collect_iteration_step ::
    "collect_ctx \<Rightarrow> collect_iteration \<Rightarrow> bool \<Rightarrow> u32 \<Rightarrow> collect_result option" where
  "collect_iteration_step ctx it modbus_ok g =
     (case collect_read ctx it of None \<Rightarrow> None
      | Some (reg_count, values, out) \<Rightarrow>
          (case collect_sample (ci_now it) reg_count values modbus_ok g of (ok', g', s, logs) \<Rightarrow>
             (case collect_push ctx it s of None \<Rightarrow> None
              | Some (q, us) \<Rightarrow>
                  Some \<lparr>co_modbus_ok = ok', co_mock_sequence = g', co_pushed = [s], co_queues = [q],
                    co_logs = logs, co_stdout = out, co_sleeps = [us]\<rparr>)))"

definition collect_mock_step :: "collect_ctx \<Rightarrow> collect_iteration \<Rightarrow> u32 \<Rightarrow> collect_result option" where
  "collect_mock_step ctx it g =
     (case sample_generate_mock (ci_now it) g (Some zero_sample) of (g', s) \<Rightarrow>
        (case collect_push ctx it (the s) of None \<Rightarrow> None
         | Some (q, us) \<Rightarrow>
             Some \<lparr>co_modbus_ok = False, co_mock_sequence = g', co_pushed = [the s], co_queues = [q],
               co_logs = [], co_stdout = [], co_sleeps = [us]\<rparr>))"

subsection \<open>The threads\<close>

definition collect_start :: "bool \<Rightarrow> u32 \<Rightarrow> collect_result" where
  "collect_start ok g = \<lparr>co_modbus_ok = ok, co_mock_sequence = g, co_pushed = [], co_queues = [],
     co_logs = [], co_stdout = [], co_sleeps = []\<rparr>"

text \<open>What was done before, then \<open>r\<close>.\<close>
definition collect_then :: "collect_result \<Rightarrow> collect_result \<Rightarrow> collect_result" where
  "collect_then r0 r = r\<lparr>co_pushed := co_pushed r0 @ co_pushed r, co_queues := co_queues r0 @ co_queues r,
     co_logs := co_logs r0 @ co_logs r, co_stdout := co_stdout r0 @ co_stdout r,
     co_sleeps := co_sleeps r0 @ co_sleeps r\<rparr>"

fun collect_loop ::
    "collect_ctx \<Rightarrow> collect_iteration list \<Rightarrow> bool \<Rightarrow> u32 \<Rightarrow> collect_result option" where
  "collect_loop ctx [] ok g = Some (collect_start ok g)"
| "collect_loop ctx (it # its) ok g =
     (case collect_iteration_step ctx it ok g of None \<Rightarrow> None
      | Some r0 \<Rightarrow> map_option (collect_then r0)
                     (collect_loop ctx its (co_modbus_ok r0) (co_mock_sequence r0)))"

fun collect_mock_loop :: "collect_ctx \<Rightarrow> collect_iteration list \<Rightarrow> u32 \<Rightarrow> collect_result option" where
  "collect_mock_loop ctx [] g = Some (collect_start False g)"
| "collect_mock_loop ctx (it # its) g =
     (case collect_mock_step ctx it g of None \<Rightarrow> None
      | Some r0 \<Rightarrow> map_option (collect_then r0) (collect_mock_loop ctx its (co_mock_sequence r0)))"

text \<open>The first and the last log line around the loop.\<close>
definition collect_logged :: "string \<Rightarrow> collect_result \<Rightarrow> collect_result" where
  "collect_logged first r = r\<lparr>co_logs := [(LOG_LEVEL_INFO, first)] @ co_logs r @
     [(LOG_LEVEL_INFO, ''collect thread stopped'')]\<rparr>"

text \<open>\<open>None\<close> for the context is the null pointer, \<open>has_queue\<close> says that its raw queue is not.\<close>
definition collect_thread ::
    "collect_ctx option \<Rightarrow> bool \<Rightarrow> collect_iteration list \<Rightarrow> u32 \<Rightarrow> collect_result option" where
  "collect_thread ctx has_queue its g =
     (case ctx of None \<Rightarrow> Some (collect_start False g)
      | Some c \<Rightarrow>
          if \<not> has_queue then Some (collect_start False g)
          else map_option (collect_logged ''collect thread started'') (collect_loop c its False g))"

definition collect_thread_mock ::
    "collect_ctx option \<Rightarrow> bool \<Rightarrow> collect_iteration list \<Rightarrow> u32 \<Rightarrow> collect_result option" where
  "collect_thread_mock ctx has_queue its g =
     (case ctx of None \<Rightarrow> Some (collect_start False g)
      | Some c \<Rightarrow>
          if \<not> has_queue then Some (collect_start False g)
          else map_option (collect_logged ''collect thread started (mock only)'') (collect_mock_loop c its g))"


subsection \<open>What the collector feeds into the queue\<close>

text \<open>The read and the push of an iteration both come to an end; the read delivers seven registers.\<close>

definition answers :: "collect_ctx \<Rightarrow> collect_iteration \<Rightarrow> bool" where
  "answers ctx it \<longleftrightarrow> collect_read ctx it \<noteq> None \<and> push_wait (ci_queue it) 100 (ci_wakeups it) \<noteq> None"

definition delivered :: "collect_ctx \<Rightarrow> collect_iteration \<Rightarrow> bool" where
  "delivered ctx it = (case collect_read ctx it of None \<Rightarrow> False | Some (rc, _, _) \<Rightarrow> rc = 7)"

definition decoded_sample :: "collect_ctx \<Rightarrow> collect_iteration \<Rightarrow> water_sample" where
  "decoded_sample ctx it =
     the (sample_from_modbus_regs (ci_now it) (Some zero_sample) (fst (snd (the (collect_read ctx it)))) 7)"

definition mock_sample :: "timeval \<Rightarrow> u32 \<Rightarrow> water_sample" where
  "mock_sample now g = the (snd (sample_generate_mock now g (Some zero_sample)))"

text \<open>How many of the first \<open>i\<close> iterations had to fall back to mock data.\<close>
definition mocks :: "collect_ctx \<Rightarrow> collect_iteration list \<Rightarrow> nat \<Rightarrow> nat" where
  "mocks ctx its i = length (filter (\<lambda>it. \<not> delivered ctx it) (take i its))"

definition fed_sample :: "collect_ctx \<Rightarrow> collect_iteration \<Rightarrow> u32 \<Rightarrow> water_sample" where
  "fed_sample ctx it g = (if delivered ctx it then decoded_sample ctx it else mock_sample (ci_now it) g)"

text \<open>The messages about gaining and losing the bus.\<close>
fun transitions :: "bool \<Rightarrow> bool list \<Rightarrow> log_msg list" where
  "transitions before [] = []"
| "transitions before (b # bs) =
     (if b \<and> \<not> before then [(LOG_LEVEL_INFO, ''modbus acquisition established'')]
      else if \<not> b \<and> before then [(LOG_LEVEL_WARN, ''modbus read lost, falling back to mock data'')]
      else []) @ transitions b bs"

lemma mocks_simps [simp]:
  "mocks ctx its 0 = 0"
  "mocks ctx (it # its) (Suc i) = (if delivered ctx it then 0 else 1) + mocks ctx its i"
  by (simp_all add: mocks_def)

lemma mock_counter: "sample_generate_mock now g (Some s) = (g + 1, Some (mock_sample now g))"
  by (simp add: sample_generate_mock_def mock_sample_def Let_def)

lemma mock_sample_ok: "sample_ok (mock_sample now g)"
  using sample_ok_mock [of now g zero_sample] by (auto simp: mock_sample_def)

lemma mock_sample_sequence: "sequence (mock_sample now g) = g + 1"
  by (simp add: mock_sample_def sample_generate_mock_def Let_def)

lemma parse_values_Some: "\<exists>v'. snd (modbus_parse_response (Some b) n (Some v) m) = Some v'"
  by (simp add: modbus_parse_response_def Let_def)

lemma read_values_Some:
  "modbus_read_registers env fd a st q (Some v) m t = Some res \<Longrightarrow> 0 < m \<Longrightarrow> \<exists>v'. res_values res = Some v'"
  using parse_values_Some
  by (auto simp: read_registers_eq Let_def split: if_splits option.splits prod.splits)

lemma collect_read_values: "collect_read ctx it = Some (rc, vs, out) \<Longrightarrow> \<exists>v. vs = Some v"
  by (auto simp: collect_read_def split: if_splits dest: read_values_Some)

lemma decoded_sample_ok:
  assumes "delivered ctx it"
  shows "sample_ok (decoded_sample ctx it)"
proof -
  obtain vs out where r: "collect_read ctx it = Some (7, vs, out)"
    using assms by (auto simp: delivered_def split: option.splits)
  then obtain v where "vs = Some v" using collect_read_values by blast
  with r sample_ok_regs [of 7 "ci_now it" zero_sample v] show ?thesis by (auto simp: decoded_sample_def)
qed

lemma fed_sample_ok: "sample_ok (fed_sample ctx it g)"
  by (simp add: fed_sample_def decoded_sample_ok mock_sample_ok)

lemma collect_push_None:
  "collect_push ctx it s = None \<longleftrightarrow> push_wait (ci_queue it) 100 (ci_wakeups it) = None"
  by (auto simp: collect_push_def sample_queue_push_def split: option.splits prod.splits)

lemma collect_step_None: "collect_iteration_step ctx it ok g = None \<longleftrightarrow> \<not> answers ctx it"
proof (cases "collect_read ctx it")
  case (Some x)
  obtain rc vs out where x: "x = (rc, vs, out)" by (cases x)
  obtain ok' g' s logs where "collect_sample (ci_now it) rc vs ok g = (ok', g', s, logs)"
    by (cases "collect_sample (ci_now it) rc vs ok g")
  with Some x have "collect_iteration_step ctx it ok g = None \<longleftrightarrow> collect_push ctx it s = None"
    by (simp add: collect_iteration_step_def split: option.split prod.split)
  with Some show ?thesis by (simp add: answers_def collect_push_None)
qed (simp add: collect_iteration_step_def answers_def)

lemma collect_step_effect:
  assumes "collect_iteration_step ctx it ok g = Some r"
  shows "co_pushed r = [fed_sample ctx it g] \<and> co_modbus_ok r = delivered ctx it
    \<and> co_mock_sequence r = (if delivered ctx it then g else g + 1)
    \<and> co_logs r = transitions ok [delivered ctx it] \<and> length (co_queues r) = 1"
proof -
  obtain rc vs out where r: "collect_read ctx it = Some (rc, vs, out)"
    using assms by (auto simp: collect_iteration_step_def split: option.splits)
  have d: "delivered ctx it \<longleftrightarrow> rc = 7" by (simp add: delivered_def r)
  show ?thesis
    using assms r d
    by (auto simp: collect_iteration_step_def collect_sample_def mock_counter fed_sample_def decoded_sample_def
        split: option.splits if_splits)
qed

lemma collect_loop_None: "collect_loop ctx its ok g = None \<longleftrightarrow> \<not> list_all (answers ctx) its"
proof (induction its arbitrary: ok g)
  case (Cons it its)
  then show ?case
    using collect_step_None [of ctx it ok g] by (cases "collect_iteration_step ctx it ok g") auto
qed simp

lemma collect_loop_effect:
  "collect_loop ctx its ok g = Some r \<Longrightarrow>
     length (co_pushed r) = length its
     \<and> (\<forall>i<length its. co_pushed r ! i = fed_sample ctx (its ! i) (g + of_nat (mocks ctx its i)))
     \<and> co_mock_sequence r = g + of_nat (mocks ctx its (length its))
     \<and> co_logs r = transitions ok (map (delivered ctx) its)"
proof (induction its arbitrary: ok g r)
  case Nil
  then show ?case by (auto simp: collect_start_def)
next
  case (Cons it its)
  obtain r0 where r0: "collect_iteration_step ctx it ok g = Some r0"
    using Cons.prems by (auto split: option.splits)
  then obtain r1 where r1: "collect_loop ctx its (co_modbus_ok r0) (co_mock_sequence r0) = Some r1"
    and r: "r = collect_then r0 r1" using Cons.prems by auto
  note s = collect_step_effect [OF r0] and IH = Cons.IH [OF r1]
  have "co_pushed r ! i = fed_sample ctx ((it # its) ! i) (g + of_nat (mocks ctx (it # its) i))"
    if "i < length (it # its)" for i
    using that s IH by (cases i) (auto simp: r collect_then_def algebra_simps)
  then show ?case using s IH by (auto simp: r collect_then_def algebra_simps)
qed


text \<open>
  Property C15. What the collector feeds into the pipeline. The thread gets through its iterations
  exactly when every read and every push comes to an end. Then it has pushed one sample per
  iteration, in order, each with proper single-precision values: the decoded registers when the
  read delivered seven of them, else mock data, numbered consecutively from the static counter
  over the whole run. The log shows exactly the changes between the two sources.
\<close>
theorem collect_thread_feeds:
  "case collect_thread (Some ctx) True its g of
     None \<Rightarrow> \<not> list_all (answers ctx) its
   | Some r \<Rightarrow> list_all (answers ctx) its \<and> list_all sample_ok (co_pushed r)
      \<and> co_pushed r = map (\<lambda>i. if delivered ctx (its ! i) then decoded_sample ctx (its ! i)
            else mock_sample (ci_now (its ! i)) (g + of_nat (mocks ctx its i))) [0..<length its]
      \<and> co_mock_sequence r = g + of_nat (mocks ctx its (length its))
      \<and> co_logs r = [(LOG_LEVEL_INFO, ''collect thread started'')] @ transitions False (map (delivered ctx) its)
            @ [(LOG_LEVEL_INFO, ''collect thread stopped'')]"
proof (cases "collect_loop ctx its False g")
  case None
  then show ?thesis using collect_loop_None [of ctx its False g] by (simp add: collect_thread_def)
next
  case (Some r)
  note e = collect_loop_effect [OF Some]
  have p: "co_pushed r = map (\<lambda>i. fed_sample ctx (its ! i) (g + of_nat (mocks ctx its i))) [0..<length its]"
    using e by (intro nth_equalityI) simp_all
  have "list_all sample_ok (co_pushed r)"
    unfolding p using fed_sample_ok by (simp add: list_all_iff)
  moreover have "list_all (answers ctx) its" using Some collect_loop_None [of ctx its False g] by simp
  ultimately show ?thesis
    using e p Some by (simp add: collect_thread_def collect_logged_def fed_sample_def)
qed

text \<open>
  Property C23. From the bus to the queue: when the slave's response frame for the seven registers
  arrives in time on an open port that takes the request, the iteration pushes the sample these
  registers encode, whatever the values array held before.
\<close>
theorem collect_registers_to_sample:
  assumes "0 \<le> cc_serial_fd ctx" and "length regs = 7" and "length (ci_values it) = 7"
    and "env_writes (ci_bus it) = [Ret 8]" and "env_select (ci_bus it) = Ready"
    and "env_read (ci_bus it) = Data (read_response a regs)"
    and "push_wait (ci_queue it) 100 (ci_wakeups it) \<noteq> None"
  shows "\<exists>r. collect_iteration_step ctx it ok g = Some r
    \<and> Some (hd (co_pushed r)) = sample_from_modbus_regs (ci_now it) (Some zero_sample) (Some regs) 7
    \<and> co_modbus_ok r \<and> co_mock_sequence r = g"
proof -
  obtain res where res: "modbus_read_registers (ci_bus it) (cc_serial_fd ctx)
      (word_of_int (cfg_modbus_slave_addr (cc_cfg ctx))) 0 7 (Some (ci_values it)) 7 500 = Some res"
    "res_code res = 7" "res_values res = Some regs"
    using read_registers_delivers [OF assms(1) _ _ _ assms(4,5,6), of "ci_values it"
        "word_of_int (cfg_modbus_slave_addr (cc_cfg ctx))" 0 500] assms(2,3) by auto
  have r: "collect_read ctx it = Some (7, Some regs, res_stdout res)"
    using assms(1) res by (simp add: collect_read_def)
  then have "answers ctx it" "delivered ctx it" using assms(7) by (simp_all add: answers_def delivered_def)
  moreover obtain s where "sample_from_modbus_regs (ci_now it) (Some zero_sample) (Some regs) 7 = Some s"
    using sample_ok_regs [of 7 "ci_now it" zero_sample regs] by auto
  moreover obtain r' where "collect_iteration_step ctx it ok g = Some r'"
    using calculation(1) collect_step_None [of ctx it ok g] by (cases "collect_iteration_step ctx it ok g") auto
  ultimately show ?thesis
    using collect_step_effect [of ctx it ok g r'] r by (simp add: fed_sample_def decoded_sample_def)
qed

definition bus_iteration :: collect_iteration where
  "bus_iteration = \<lparr>ci_bus = \<lparr>env_writes = [Ret 8], env_select = Ready,
       env_read = Data (read_response 1 [712, 2534, 320, 820, 0, 0, 1280])\<rparr>,
     ci_values = replicate 7 0, ci_now = (1, 0), ci_queue = small_queue, ci_wakeups = []\<rparr>"

theorem collect_registers_to_sample_witness:
  "\<exists>r. collect_iteration_step \<lparr>cc_cfg = default_config, cc_serial_fd = 3\<rparr> bus_iteration False 5 = Some r
     \<and> sequence (hd (co_pushed r)) = 1280"
proof -
  let ?ctx = "\<lparr>cc_cfg = default_config, cc_serial_fd = 3\<rparr>"
  have w: "push_wait (ci_queue bus_iteration) 100 (ci_wakeups bus_iteration) \<noteq> None"
    by (simp add: bus_iteration_def small_queue_def sample_queue_create_def)
  obtain r where r: "collect_iteration_step ?ctx bus_iteration False 5 = Some r"
    "Some (hd (co_pushed r)) = sample_from_modbus_regs (1, 0) (Some zero_sample)
       (Some [712, 2534, 320, 820, 0, 0, 1280]) 7"
    using collect_registers_to_sample [OF _ _ _ _ _ _ w, of ?ctx "[712, 2534, 320, 820, 0, 0, 1280]" 1 False 5]
    by (auto simp: bus_iteration_def)
  then have "sequence (hd (co_pushed r)) = ucast (1280 :: u16)"
    by (auto simp: sample_from_modbus_regs_def)
  with r(1) show ?thesis by (intro exI [of _ r]) simp
qed

text \<open>
  Property C31. Without a serial port the collector is the mock collector: the same samples, queue
  states, counter and sleeps, and blocked in the same runs; only the first log line differs.
\<close>
theorem collect_without_port_is_mock:
  assumes "cc_serial_fd ctx < 0"
  shows "map_option (\<lambda>r. r\<lparr>co_logs := tl (co_logs r)\<rparr>) (collect_thread (Some ctx) has_queue its g)
    = map_option (\<lambda>r. r\<lparr>co_logs := tl (co_logs r)\<rparr>) (collect_thread_mock (Some ctx) has_queue its g)"
proof -
  have step: "collect_iteration_step ctx it False g = collect_mock_step ctx it g" for it g
    using assms
    by (simp add: collect_iteration_step_def collect_mock_step_def collect_read_def collect_sample_def mock_counter
        split: option.split prod.split)
  have "collect_loop ctx its False g = collect_mock_loop ctx its g"
  proof (induction its arbitrary: g)
    case (Cons it its)
    have "co_modbus_ok r = False" if "collect_mock_step ctx it g = Some r" for r
      using that by (auto simp: collect_mock_step_def split: option.splits prod.splits)
    with Cons.IH show ?case by (auto simp: step split: option.split)
  qed simp
  then show ?thesis
    by (cases "collect_mock_loop ctx its g") (simp_all add: collect_thread_def collect_thread_mock_def collect_logged_def)
qed

theorem collect_without_port_is_mock_witness:
  "map_option (\<lambda>r. r\<lparr>co_logs := tl (co_logs r)\<rparr>)
     (collect_thread (Some \<lparr>cc_cfg = default_config, cc_serial_fd = -1\<rparr>) True [bus_iteration] 5)
   = map_option (\<lambda>r. r\<lparr>co_logs := tl (co_logs r)\<rparr>)
     (collect_thread_mock (Some \<lparr>cc_cfg = default_config, cc_serial_fd = -1\<rparr>) True [bus_iteration] 5)"
  by (rule collect_without_port_is_mock) simp

end
