(* ===== verification/Water_Alarm.thy ===== *)
theory Water_Alarm
  imports Logger
begin

section \<open>The LED driver and its users\<close>

text \<open>
  The character device \<^verbatim>\<open>driver/water_alarm/newchrled.c\<close>, the gateway's client
  \<^verbatim>\<open>app/src/alarm_client.c\<close> and the test program \<^verbatim>\<open>driver/water_alarm/ledApp.c\<close>. The state is
  the five mapped registers (a read or write of one is a field access) and what the driver has
  registered with the kernel. The LED is wired to GPIO1_IO03 and lit when the pin is low.
\<close>

unbundle bit_operations_syntax

abbreviation LEDOFF :: u8 where "LEDOFF \<equiv> 0"
abbreviation LEDON :: u8 where "LEDON \<equiv> 1"

record led_regs =
  IMX6U_CCM_CCGR1 :: u32
  SW_MUX_GPIO1_IO03 :: u32
  SW_PAD_GPIO1_IO03 :: u32
  GPIO1_DR :: u32
  GPIO1_GDIR :: u32

subsection \<open>The driver's file operations\<close>

definition led_switch :: "u8 \<Rightarrow> led_regs \<Rightarrow> led_regs" where
  "led_switch sta r =
     (if sta = LEDON then r\<lparr>GPIO1_DR := GPIO1_DR r AND NOT (push_bit 3 1)\<rparr>
      else if sta = LEDOFF then r\<lparr>GPIO1_DR := GPIO1_DR r OR push_bit 3 1\<rparr>
      else r)"

definition led_open :: "led_regs \<Rightarrow> int \<times> led_regs" where
  "led_open r = (0, r)"

definition led_read :: "nat \<Rightarrow> led_regs \<Rightarrow> int \<times> led_regs" where
  "led_read cnt r = (0, r)"

definition led_release :: "led_regs \<Rightarrow> int \<times> led_regs" where
  "led_release r = (0, r)"

text \<open>
  \<open>copy_from_user buf cnt\<close> is the kernel's: its return value and the bytes it leaves in
  \<^verbatim>\<open>databuf\<close>. \<open>None\<close> is the overflow of the one-byte \<^verbatim>\<open>databuf\<close>.
\<close>
definition led_write ::
    "(u8 list \<Rightarrow> nat \<Rightarrow> int \<times> u8 list) \<Rightarrow> u8 list \<Rightarrow> nat \<Rightarrow> led_regs \<Rightarrow> (int \<times> led_regs) option" where
  "led_write copy_from_user buf cnt r =
     (if cnt > 1 then None
      else (case copy_from_user buf cnt of (retvalue, databuf) \<Rightarrow>
        if retvalue < 0 then Some (-14, r)
        else
          (let ledstat = databuf ! 0
           in if ledstat = LEDON then Some (0, led_switch LEDON r)
              else if ledstat = LEDOFF then Some (0, led_switch LEDOFF r)
              else Some (0, r))))"

text \<open>
  What the kernel documents of \<^verbatim>\<open>copy_from_user\<close>: it returns the number of bytes that could
  not be copied, zero when all are there.
\<close>
definition copy_contract :: "(u8 list \<Rightarrow> nat \<Rightarrow> int \<times> u8 list) \<Rightarrow> bool" where
  "copy_contract cfu \<longleftrightarrow> (\<forall>buf cnt. 0 \<le> fst (cfu buf cnt) \<and>
     (fst (cfu buf cnt) = 0 \<longrightarrow> take cnt (snd (cfu buf cnt)) = take cnt buf))"

definition readable :: "(u8 list \<Rightarrow> nat \<Rightarrow> int \<times> u8 list) \<Rightarrow> bool" where
  "readable cfu \<longleftrightarrow> (\<forall>buf. buf \<noteq> [] \<longrightarrow> fst (cfu buf 1) = 0)"

subsection \<open>Loading and unloading the module\<close>

record led_module =
  led_registers :: led_regs
  io_mapped :: bool
  nc_devid :: u32
  nc_major :: u32
  nc_minor :: u32
  nc_region :: bool
  nc_cdev :: bool
  nc_class :: bool
  nc_device :: bool
  printk_log :: "string list"

definition MKDEV :: "u32 \<Rightarrow> u32 \<Rightarrow> u32" where "MKDEV ma mi = push_bit 20 ma OR mi"
definition MAJOR_of :: "u32 \<Rightarrow> u32" where "MAJOR_of d = drop_bit 20 d"
definition MINOR_of :: "u32 \<Rightarrow> u32" where "MINOR_of d = d AND (2 ^ 20 - 1)"

text \<open>
  The answers of the kernel: whether the region and the cdev are registered (the code does not
  look), the number allocated, and the error of the class and of the device (\<open>None\<close>: created).
\<close>
record init_env =
  region_ok :: bool
  alloc_dev :: u32
  cdev_ok :: bool
  class_err :: "int option"
  device_err :: "int option"

definition init_registers :: "led_regs \<Rightarrow> led_regs" where
  "init_registers r0 =
     (let val = IMX6U_CCM_CCGR1 r0;
          val = val AND NOT (push_bit 26 3);
          val = val OR push_bit 26 3;
          r1 = r0\<lparr>IMX6U_CCM_CCGR1 := val\<rparr>;
          r2 = r1\<lparr>SW_MUX_GPIO1_IO03 := 5\<rparr>;
          r3 = r2\<lparr>SW_PAD_GPIO1_IO03 := 0x10B0\<rparr>;
          val = GPIO1_GDIR r3;
          val = val AND NOT (push_bit 3 1);
          val = val OR push_bit 3 1;
          r4 = r3\<lparr>GPIO1_GDIR := val\<rparr>;
          val = GPIO1_DR r4;
          val = val OR push_bit 3 1
      in r4\<lparr>GPIO1_DR := val\<rparr>)"

definition led_init :: "init_env \<Rightarrow> led_module \<Rightarrow> int \<times> led_module" where
  "led_init env m0 =
     (let m1 = m0\<lparr>io_mapped := True, led_registers := init_registers (led_registers m0)\<rparr>;
          m2 = (if nc_major m1 \<noteq> 0
                then m1\<lparr>nc_devid := MKDEV (nc_major m1) 0, nc_region := region_ok env\<rparr>
                else (let d = (if region_ok env then alloc_dev env else nc_devid m1)
                      in m1\<lparr>nc_devid := d, nc_region := region_ok env, nc_major := MAJOR_of d, nc_minor := MINOR_of d\<rparr>));
          m3 = m2\<lparr>printk_log := printk_log m2 @
                 [''newcheled major='' @ fmt_int (sint (nc_major m2)) @ '',minor='' @ fmt_int (sint (nc_minor m2))]\<rparr>;
          m4 = m3\<lparr>nc_cdev := cdev_ok env\<rparr>
      in (case class_err env of
            Some e \<Rightarrow> (e, m4)
          | None \<Rightarrow>
              (let m5 = m4\<lparr>nc_class := True\<rparr>
               in (case device_err env of
                     Some e \<Rightarrow> (e, m5)
                   | None \<Rightarrow> (0, m5\<lparr>nc_device := True\<rparr>)))))"

definition led_exit :: "led_module \<Rightarrow> led_module" where
  "led_exit m =
     (let m1 = m\<lparr>io_mapped := False\<rparr>;
          m2 = m1\<lparr>nc_cdev := False\<rparr>;
          m3 = m2\<lparr>nc_region := False\<rparr>;
          m4 = m3\<lparr>nc_device := False\<rparr>
      in m4\<lparr>nc_class := False\<rparr>)"

subsection \<open>The gateway's client\<close>

text \<open>
  \<open>open_ret\<close> is what \<^verbatim>\<open>open\<close> returns, \<open>dev_write\<close> what a \<^verbatim>\<open>write\<close> of some bytes does to the
  device and returns.
\<close>
definition alarm_client_open :: "string option \<Rightarrow> int \<Rightarrow> int \<times> log_msg list" where
  "alarm_client_open device open_ret =
     (case device of
        None \<Rightarrow> (-1, [(LOG_LEVEL_WARN, ''alarm: device path is NULL, hardware alarm disabled'')])
      | Some path \<Rightarrow>
          if open_ret < 0
          then (-1, [(LOG_LEVEL_WARN, ''alarm: open '' @ path @
                        '' failed, hardware alarm disabled (driver not loaded?)'')])
          else (open_ret, [(LOG_LEVEL_INFO, ''alarm: '' @ path @ '' opened, LED alarm ready'')]))"

definition alarm_client_set ::
    "(u8 list \<Rightarrow> 's \<Rightarrow> int \<times> 's) \<Rightarrow> int \<Rightarrow> bool \<Rightarrow> 's \<Rightarrow> 's \<times> log_msg list" where
  "alarm_client_set dev_write fd on s =
     (if fd < 0 then (s, [])
      else
        (let cmd = (if on then 1 else 0)
         in (case dev_write [cmd] s of (r, s') \<Rightarrow>
               if r < 0 then (s', [(LOG_LEVEL_WARN, ''alarm: write failed'')]) else (s', []))))"

text \<open>Whether the descriptor is closed.\<close>
definition alarm_client_close :: "int \<Rightarrow> bool" where
  "alarm_client_close fd \<longleftrightarrow> fd \<ge> 0"

subsection \<open>The test program\<close>

text \<open>
  \<^verbatim>\<open>main\<close> of \<^verbatim>\<open>ledApp\<close>: exit code, line printed and device afterwards. \<open>close_ret\<close> is what the
  last \<^verbatim>\<open>close\<close> returns.
\<close>
definition led_app ::
    "(u8 list \<Rightarrow> 's \<Rightarrow> int \<times> 's) \<Rightarrow> int \<Rightarrow> int \<Rightarrow> string list \<Rightarrow> 's \<Rightarrow> int \<times> string \<times> 's" where
  "led_app dev_write open_ret close_ret argv s =
     (if length argv \<noteq> 3 then (-1, ''Error Usage!'', s)
      else if open_ret < 0 then (-1, ''file '' @ argv ! 1 @ '' open failed!'', s)
      else
        (let databuf = [word_of_int (atoi (argv ! 2))]
         in (case dev_write databuf s of (retvalue, s') \<Rightarrow>
               if retvalue < 0 then (-1, ''LED Control Failed!'', s')
               else if close_ret < 0 then (-1, ''file '' @ argv ! 1 @ '' close failed!'', s')
               else (0, '''', s'))))"


subsection \<open>The interface of a lamp\<close>

text \<open>
  What a user of a two-state indicator relies on: it shows the last command, commands change
  nothing else, and repeating one has no effect.
\<close>
locale lamp =
  fixes switch :: "bool \<Rightarrow> 's \<Rightarrow> 's"
    and lit :: "'s \<Rightarrow> bool"
    and others :: "'s \<Rightarrow> 'r"
  assumes lit_switch: "lit (switch b s) = b"
    and others_switch: "others (switch b s) = others s"
    and switch_switch: "switch b (switch c s) = switch b s"
    and switch_same: "switch (lit s) s = s"
begin

lemma switch_run: "fold switch bs s = (if bs = [] then s else switch (last bs) s)"
  by (induction bs arbitrary: s) (auto simp: switch_switch)

lemma lit_run: "lit (fold switch bs s) = last (lit s # bs)"
  by (simp add: switch_run lit_switch)

lemma others_run: "others (fold switch bs s) = others s"
  by (simp add: switch_run others_switch)

lemma switch_idle: "(\<forall>b \<in> set bs. b = lit s) \<Longrightarrow> fold switch bs s = s"
proof (cases bs rule: rev_cases)
  case (snoc ys y)
  assume "\<forall>b \<in> set bs. b = lit s"
  then have "y = lit s" by (simp add: snoc)
  then show ?thesis unfolding switch_run snoc using switch_same by simp
qed simp

end

text \<open>The LED of the driver: lit when bit 3 of the data register is low.\<close>

definition led_lit :: "led_regs \<Rightarrow> bool" where
  "led_lit r \<longleftrightarrow> \<not> bit (GPIO1_DR r) 3"

definition led_rest :: "led_regs \<Rightarrow> led_regs" where
  "led_rest r = r\<lparr>GPIO1_DR := GPIO1_DR r AND NOT (push_bit 3 1)\<rparr>"

definition led_set :: "bool \<Rightarrow> led_regs \<Rightarrow> led_regs" where
  "led_set b = led_switch (if b then LEDON else LEDOFF)"

lemma bit_mask3: "bit (push_bit 3 1 :: u32) n \<longleftrightarrow> n = 3"
  by (auto simp: bit_push_bit_iff bit_1_iff simp del: push_bit_of_1)

lemma dr_bits:
  "bit (GPIO1_DR (led_set b r)) n \<longleftrightarrow> (if n = 3 then \<not> b else bit (GPIO1_DR r) n)"
  using bit_imp_le_length [of "GPIO1_DR r" n]
  by (auto simp: led_set_def led_switch_def bit_and_iff bit_or_iff bit_not_iff_eq bit_mask3 simp del: push_bit_of_1)


lemma led_regs_eqI:
  assumes "\<And>d. r\<lparr>GPIO1_DR := d\<rparr> = r'\<lparr>GPIO1_DR := d\<rparr>" and "\<And>n. bit (GPIO1_DR r) n = bit (GPIO1_DR r') n"
  shows "r = (r' :: led_regs)"
proof -
  have "GPIO1_DR r = GPIO1_DR r'" using assms(2) by (intro bit_word_eqI) simp
  moreover have "r\<lparr>GPIO1_DR := GPIO1_DR r\<rparr> = r'\<lparr>GPIO1_DR := GPIO1_DR r\<rparr>" by (rule assms(1))
  ultimately show ?thesis by (cases r; cases r') simp
qed

lemma led_set_update [simp]: "(led_set b r)\<lparr>GPIO1_DR := d\<rparr> = r\<lparr>GPIO1_DR := d\<rparr>"
  by (simp add: led_set_def led_switch_def)

interpretation led: lamp led_set led_lit led_rest
proof
  fix b c :: bool and s :: led_regs
  show "led_lit (led_set b s) = b" by (simp add: led_lit_def dr_bits)
  show "led_set b (led_set c s) = led_set b s"
    by (rule led_regs_eqI) (simp_all add: dr_bits)
  show "led_set (led_lit s) s = s"
    by (rule led_regs_eqI) (auto simp: dr_bits led_lit_def)
  show "led_rest (led_set b s) = led_rest s"
  proof -
    have "GPIO1_DR (led_set b s) AND NOT (push_bit 3 1) = GPIO1_DR s AND NOT (push_bit 3 1)"
      by (rule bit_word_eqI) (auto simp: bit_and_iff bit_not_iff_eq bit_mask3 dr_bits simp del: push_bit_of_1)
    then show ?thesis by (simp only: led_rest_def led_set_update)
  qed
qed


lemma led_lit_set [simp]: "led_lit (led_set b r) = b"
  by (rule led.lit_switch)

subsection \<open>Writing to the device\<close>

lemma led_write_byte:
  assumes "copy_contract cfu" and "readable cfu"
  shows "led_write cfu [b] 1 r =
    Some (0, if b = 1 then led_set True r else if b = 0 then led_set False r else r)"
proof -
  obtain n d where c: "cfu [b] 1 = (n, d)" by fastforce
  have "n = 0" using assms(2) c by (auto simp: readable_def dest: spec [of _ "[b]"])
  moreover have "take 1 d = [b]"
    using assms(1) c \<open>n = 0\<close> unfolding copy_contract_def by (metis fst_conv snd_conv take_all_iff length_Cons list.size(3) One_nat_def order_refl)
  then have "d ! 0 = b" by (cases d) simp_all
  ultimately show ?thesis using c by (simp add: led_write_def led_set_def Let_def)
qed

text \<open>
  A one-byte write to the device, with the buffer readable: 1 lights the LED, 0
  puts it out, any other byte changes nothing, and no other bit of the data register and no
  other register is touched. The call returns 0, not the number of bytes written.
\<close>
theorem led_write_effect:
  assumes "copy_contract cfu" and "readable cfu"
  shows "\<exists>r'. led_write cfu [b] 1 r = Some (0, r')
    \<and> led_lit r' = (if b = 1 then True else if b = 0 then False else led_lit r)
    \<and> (\<forall>n. n \<noteq> 3 \<longrightarrow> bit (GPIO1_DR r') n = bit (GPIO1_DR r) n)
    \<and> (\<forall>d. r'\<lparr>GPIO1_DR := d\<rparr> = r\<lparr>GPIO1_DR := d\<rparr>)"
  unfolding led_write_byte [OF assms] by (simp add: dr_bits)

definition plain_copy :: "u8 list \<Rightarrow> nat \<Rightarrow> int \<times> u8 list" where
  "plain_copy buf cnt = (0, take cnt buf)"

lemma plain_copy_ok: "copy_contract plain_copy" "readable plain_copy"
  by (simp_all add: copy_contract_def readable_def plain_copy_def)

definition led_regs0 :: led_regs where
  "led_regs0 = \<lparr>IMX6U_CCM_CCGR1 = 0, SW_MUX_GPIO1_IO03 = 0, SW_PAD_GPIO1_IO03 = 0,
     GPIO1_DR = 0xFF, GPIO1_GDIR = 0\<rparr>"

theorem led_write_effect_witness:
  "\<exists>r'. led_write plain_copy [1] 1 led_regs0 = Some (0, r') \<and> led_lit r'"
  using led_write_effect [OF plain_copy_ok, of 1 led_regs0] by auto

text \<open>The device as a user program reaches it: a \<^verbatim>\<open>write\<close> of some bytes calls the driver.\<close>
definition led_device :: "(u8 list \<Rightarrow> nat \<Rightarrow> int \<times> u8 list) \<Rightarrow> u8 list \<Rightarrow> led_regs \<Rightarrow> int \<times> led_regs" where
  "led_device cfu bytes r = the (led_write cfu bytes (length bytes) r)"

lemma alarm_client_set_driver:
  assumes "copy_contract cfu" and "readable cfu"
  shows "alarm_client_set (led_device cfu) fd on r = ((if 0 \<le> fd then led_set on r else r), [])"
  using led_write_byte [OF assms] by (simp add: alarm_client_set_def led_device_def)

text \<open>
  Property C35. The client over the driver, end to end: after any sequence of
  \<^verbatim>\<open>alarm_client_set\<close> calls on an open descriptor the LED shows the last command (its old state
  if there was none), no other register or bit has changed, and nothing is logged; on the
  descriptor \<^verbatim>\<open>-1\<close> of a device that could not be opened the calls do nothing.
\<close>
theorem alarm_client_set_correct:
  assumes "copy_contract cfu" and "readable cfu"
    and "after = fold (\<lambda>on s. fst (alarm_client_set (led_device cfu) fd on s)) cmds r"
  shows "led_lit after = (if 0 \<le> fd then last (led_lit r # cmds) else led_lit r)
    \<and> led_rest after = led_rest r \<and> (fd < 0 \<longrightarrow> after = r)
    \<and> snd (alarm_client_set (led_device cfu) fd on r) = []"
proof -
  have "after = (if 0 \<le> fd then fold led_set cmds r else r)"
    unfolding assms(3) alarm_client_set_driver [OF assms(1,2)]
    by (cases "0 \<le> fd") (simp_all add: fold_id id_def [symmetric])
  then show ?thesis
    using led.lit_run led.others_run by (simp add: alarm_client_set_driver [OF assms(1,2)])
qed

theorem alarm_client_set_correct_witness:
  "led_lit (fold (\<lambda>on s. fst (alarm_client_set (led_device plain_copy) 5 on s)) [True, False, True] led_regs0)"
  using alarm_client_set_correct [OF plain_copy_ok refl, of 5 "[True, False, True]" led_regs0] by simp

subsection \<open>The test program\<close>

text \<open>
  \<^verbatim>\<open>ledApp\<close> on the driver: with two arguments and a device that opens and closes it
  exits with 0 and sends \<^verbatim>\<open>atoi\<close> of its second argument cut to a byte, so the LED is lit when
  that is 1 modulo 256, out when it is 0 (as for any text that is no number), and otherwise left
  alone; with any other argument count, or when the open fails, it exits with \<^verbatim>\<open>-1\<close> and does
  not touch the device.
\<close>
theorem led_app_correct:
  assumes "copy_contract cfu" and "readable cfu"
    and "led_app (led_device cfu) open_ret close_ret argv r = (code, out, r')"
  shows "if length argv = 3 \<and> 0 \<le> open_ret
    then (code = 0 \<longleftrightarrow> 0 \<le> close_ret)
      \<and> led_lit r' = (if atoi (argv ! 2) mod 256 = 1 then True
                       else if atoi (argv ! 2) mod 256 = 0 then False else led_lit r)
    else code = -1 \<and> r' = r"
proof -
  let ?v = "atoi (argv ! 2)"
  have w: "(word_of_int ?v :: u8) = 1 \<longleftrightarrow> ?v mod 256 = 1" "(word_of_int ?v :: u8) = 0 \<longleftrightarrow> ?v mod 256 = 0"
    by (simp_all add: word_uint_eq_iff uint_word_of_int)
  show ?thesis
    using assms(3) led_write_byte [OF assms(1,2)] led.lit_switch w
    by (auto simp: led_app_def led_device_def Let_def split: if_splits)
qed

theorem led_app_correct_witness:
  "\<exists>r'. led_app (led_device plain_copy) 3 0 [''led'', ''/dev/newchrled'', ''1''] led_regs0 = (0, '''', r')
     \<and> led_lit r'"
proof -
  obtain code out r' where r: "led_app (led_device plain_copy) 3 0 [''led'', ''/dev/newchrled'', ''1''] led_regs0
      = (code, out, r')" by (cases "led_app (led_device plain_copy) 3 0 [''led'', ''/dev/newchrled'', ''1''] led_regs0") auto
  have a: "atoi ''1'' = 1" by code_simp
  have "code = 0 \<and> led_lit r'"
    using led_app_correct [OF plain_copy_ok r] by (simp add: a)
  moreover have "out = ''''" using r calculation by (auto simp: led_app_def Let_def split: prod.splits if_splits)
  ultimately show ?thesis using r by simp
qed


subsection \<open>Loading and unloading\<close>

lemma bit_mask26: "bit (push_bit 26 3 :: u32) n \<longleftrightarrow> n = 26 \<or> n = 27"
proof -
  have "(3 :: u32) = mask 2" by (simp add: mask_eq_exp_minus_1)
  then have "bit (push_bit 26 3 :: u32) n = bit (push_bit 26 (mask 2) :: u32) n" by (simp only:)
  also have "\<dots> \<longleftrightarrow> n = 26 \<or> n = 27" by (auto simp: bit_push_bit_iff bit_mask_iff)
  finally show ?thesis .
qed

lemma init_registers_bits:
  "bit (GPIO1_DR (init_registers r)) n \<longleftrightarrow> n = 3 \<or> bit (GPIO1_DR r) n"
  "bit (GPIO1_GDIR (init_registers r)) n \<longleftrightarrow> n = 3 \<or> bit (GPIO1_GDIR r) n"
  "bit (IMX6U_CCM_CCGR1 (init_registers r)) n \<longleftrightarrow> n = 26 \<or> n = 27 \<or> bit (IMX6U_CCM_CCGR1 r) n"
  using bit_imp_le_length [of "GPIO1_GDIR r" n] bit_imp_le_length [of "IMX6U_CCM_CCGR1 r" n]
  by (auto simp: init_registers_def Let_def bit_or_iff bit_and_iff bit_not_iff_eq bit_mask3 bit_mask26
      simp del: push_bit_of_1 push_bit_numeral)

lemma init_registers_pins:
  "SW_MUX_GPIO1_IO03 (init_registers r) = 5" "SW_PAD_GPIO1_IO03 (init_registers r) = 0x10B0"
  by (simp_all add: init_registers_def Let_def)

lemma led_init_parts:
  "led_registers (snd (led_init env m)) = init_registers (led_registers m)"
  "io_mapped (snd (led_init env m))"
  "nc_region (snd (led_init env m)) = region_ok env" "nc_cdev (snd (led_init env m)) = cdev_ok env"
  "fst (led_init env m) = (case class_err env of Some e \<Rightarrow> e | None \<Rightarrow>
     (case device_err env of Some e \<Rightarrow> e | None \<Rightarrow> 0))"
  by (simp_all add: led_init_def Let_def split: option.split)

text \<open>
  Loading the module sets up the pin whatever the registers held and however the
  registration goes: clock bits 26 and 27 on, pin 3 an output with the multiplexer at 5 and the
  pad at 0x10B0, the LED out, and no other bit of a shared register changed.
\<close>
theorem led_init_configures:
  "let r' = led_registers (snd (led_init env m)) in \<not> led_lit r'
    \<and> (\<forall>n. bit (GPIO1_DR r') n = (n = 3 \<or> bit (GPIO1_DR (led_registers m)) n))
    \<and> (\<forall>n. bit (GPIO1_GDIR r') n = (n = 3 \<or> bit (GPIO1_GDIR (led_registers m)) n))
    \<and> (\<forall>n. bit (IMX6U_CCM_CCGR1 r') n
            = (n = 26 \<or> n = 27 \<or> bit (IMX6U_CCM_CCGR1 (led_registers m)) n))
    \<and> SW_MUX_GPIO1_IO03 r' = 5 \<and> SW_PAD_GPIO1_IO03 r' = 0x10B0"
  by (simp add: Let_def led_init_parts init_registers_bits init_registers_pins led_lit_def)


definition unloaded_module :: led_module where
  "unloaded_module = \<lparr>led_registers = led_regs0, io_mapped = False, nc_devid = 0, nc_major = 0,
     nc_minor = 0, nc_region = False, nc_cdev = False, nc_class = False, nc_device = False,
     printk_log = []\<rparr>"


end
