(* ===== verification/Processor.thy ===== *)
theory Processor
  imports Sample_Queue Water_Alarm
begin

section \<open>The processor thread (\<^verbatim>\<open>app/src/processor.c\<close>)\<close>

text \<open>
  Thresholds, the alarm word of a sample, the debounced LED and the loop of the thread. The
  local variables of \<^verbatim>\<open>processor_thread\<close> and its sample counter are a record; the LED device is
  any type with a \<^verbatim>\<open>write\<close>, instantiated with the driver at the end. An iteration of the loop is
  given the two queues as they are when it calls them, with the wake-ups of the calls.
\<close>

abbreviation ALARM_PH_LOW :: u32 where "ALARM_PH_LOW \<equiv> 1"
abbreviation ALARM_PH_HIGH :: u32 where "ALARM_PH_HIGH \<equiv> 2"
abbreviation ALARM_TURB_HIGH :: u32 where "ALARM_TURB_HIGH \<equiv> 4"
abbreviation ALARM_COND_HIGH :: u32 where "ALARM_COND_HIGH \<equiv> 8"
abbreviation ALARM_TEMP_HIGH :: u32 where "ALARM_TEMP_HIGH \<equiv> 16"
abbreviation DEBOUNCE_ON_COUNT :: int where "DEBOUNCE_ON_COUNT \<equiv> 3"
abbreviation DEBOUNCE_OFF_COUNT :: int where "DEBOUNCE_OFF_COUNT \<equiv> 2"

record processor_threshold =
  ph_min :: f32
  ph_max :: f32
  temp_min :: f32
  temp_max :: f32
  turb_max :: f32
  cond_max :: f32

definition default_threshold :: processor_threshold where
  "default_threshold = \<lparr>ph_min = f32_lit 65 10, ph_max = f32_lit 85 10, temp_min = f32_lit 0 1,
     temp_max = f32_lit 45 1, turb_max = f32_lit 5 1, cond_max = f32_lit 2000 1\<rparr>"

definition processor_threshold_default :: "processor_threshold option \<Rightarrow> processor_threshold option" where
  "processor_threshold_default th = (case th of None \<Rightarrow> None | Some _ \<Rightarrow> Some default_threshold)"

definition processor_compute_alarm ::
    "water_sample option \<Rightarrow> processor_threshold option \<Rightarrow> u32" where
  "processor_compute_alarm sample th =
     (case (sample, th) of
        (Some s, Some t) \<Rightarrow>
          (let alarm = 0;
               alarm = (if f32_lt (ph s) (ph_min t) then alarm OR ALARM_PH_LOW
                        else if f32_gt (ph s) (ph_max t) then alarm OR ALARM_PH_HIGH else alarm);
               alarm = (if f32_gt (temperature s) (temp_max t) then alarm OR ALARM_TEMP_HIGH else alarm);
               alarm = (if f32_gt (turbidity s) (turb_max t) then alarm OR ALARM_TURB_HIGH else alarm)
           in (if f32_gt (conductivity s) (cond_max t) then alarm OR ALARM_COND_HIGH else alarm))
      | _ \<Rightarrow> 0)"

subsection \<open>One sample\<close>

record proc_locals =
  led_on :: bool
  alarm_cnt :: int
  clear_cnt :: int
  proc_counter :: int

record processor_ctx =
  thresholds :: processor_threshold
  alarm_fd :: int
  ctx_sample_counter :: int

definition proc_start :: "int \<Rightarrow> proc_locals" where
  "proc_start n = \<lparr>led_on = False, alarm_cnt = 0, clear_cnt = 0, proc_counter = n\<rparr>"

text \<open>The counting and the command to the LED, if one is due.\<close>
definition debounce :: "bool \<Rightarrow> proc_locals \<Rightarrow> proc_locals \<times> bool option" where
  "debounce alarm l =
     (if alarm then
        (let l1 = l\<lparr>alarm_cnt := alarm_cnt l + 1, clear_cnt := 0\<rparr>
         in if \<not> led_on l1 \<and> alarm_cnt l1 \<ge> DEBOUNCE_ON_COUNT
            then (l1\<lparr>led_on := True\<rparr>, Some True) else (l1, None))
      else
        (let l1 = l\<lparr>clear_cnt := clear_cnt l + 1, alarm_cnt := 0\<rparr>
         in if led_on l1 \<and> clear_cnt l1 \<ge> DEBOUNCE_OFF_COUNT
            then (l1\<lparr>led_on := False\<rparr>, Some False) else (l1, None)))"

definition debounce_msg :: "bool \<Rightarrow> log_msg" where
  "debounce_msg on = (LOG_LEVEL_INFO,
     if on then ''alarm: LED ON (debounced 3 samples)'' else ''alarm: LED OFF (debounced 2 samples)'')"

text \<open>One appended name: the buffer and \<^verbatim>\<open>alarm_count\<close>.\<close>
definition add_name :: "u32 \<Rightarrow> u32 \<Rightarrow> string \<Rightarrow> string \<times> int \<Rightarrow> string \<times> int" where
  "add_name alarm flag name bc =
     (if alarm AND flag \<noteq> 0
      then (case snprintf (256 - nat (snd bc)) name of
              (txt, n) \<Rightarrow> (take (nat (snd bc)) (fst bc) @ txt, snd bc + n))
      else bc)"

definition alarm_text :: "u32 \<Rightarrow> string" where
  "alarm_text alarm =
     fst (add_name alarm ALARM_TEMP_HIGH ''TEMP_HIGH ''
         (add_name alarm ALARM_COND_HIGH ''COND_HIGH ''
         (add_name alarm ALARM_TURB_HIGH ''TURB_HIGH ''
         (add_name alarm ALARM_PH_HIGH ''PH_HIGH ''
         (add_name alarm ALARM_PH_LOW ''PH_LOW '' ('''', 0))))))"

definition alarm_msg :: "u32 \<Rightarrow> water_sample \<Rightarrow> log_msg" where
  "alarm_msg alarm s = (LOG_LEVEL_WARN,
     ''ALARM triggered: '' @ alarm_text alarm @ ''| ph='' @ fmt_fixed 2 (ph s) @
     '' temp='' @ fmt_fixed 2 (temperature s) @ '' turb='' @ fmt_fixed 2 (turbidity s) @
     '' cond='' @ fmt_fixed 1 (conductivity s))"

text \<open>The loop body between pop and push: new locals, device, log calls and the sample to store.\<close>
definition processor_sample ::
    "(u8 list \<Rightarrow> 's \<Rightarrow> int \<times> 's) \<Rightarrow> processor_ctx \<Rightarrow> water_sample \<Rightarrow> proc_locals \<Rightarrow> 's
      \<Rightarrow> proc_locals \<times> 's \<times> log_msg list \<times> water_sample" where
  "processor_sample dev_write ctx sample l0 dev =
     (let l1 = l0\<lparr>proc_counter := proc_counter l0 + 1\<rparr>;
          alarm = processor_compute_alarm (Some sample) (Some (thresholds ctx))
      in (case debounce (alarm \<noteq> 0) l1 of (l2, cmd) \<Rightarrow>
           (case (case cmd of None \<Rightarrow> (dev, [])
                  | Some on \<Rightarrow>
                      (case alarm_client_set dev_write (alarm_fd ctx) on dev of
                         (dev', logs) \<Rightarrow> (dev', logs @ [debounce_msg on]))) of
              (dev1, logs1) \<Rightarrow>
                (let s1 = (if alarm \<noteq> 0
                           then sample\<lparr>alarm_status := alarm_status sample OR alarm\<rparr> else sample);
                     logs2 = (if alarm \<noteq> 0 then [alarm_msg alarm s1] else []);
                     txt = the (fst (sample_to_string (Some s1) (Some '''') 256))
                 in (l2, dev1,
                     logs1 @ logs2 @ [(LOG_LEVEL_INFO, ''[proc] #'' @ fmt_int (proc_counter l2) @ '' '' @ txt)],
                     s1)))))"

subsection \<open>The loop\<close>

text \<open>
  What one iteration meets: the raw queue and the wake-ups of its pop, the store queue (\<open>None\<close>
  for \<^verbatim>\<open>NULL\<close>) and the wake-ups of its push.
\<close>
record proc_iteration =
  it_raw :: sample_queue
  it_raw_wakeups :: "wakeup list"
  it_store :: "sample_queue option"
  it_store_wakeups :: "wakeup list"

text \<open>
  The result: locals, device, the raw queue each pop and the store queue each push has left,
  the log calls, the samples popped and the samples given to push.
\<close>
record 's proc_result =
  pr_locals :: proc_locals
  pr_device :: 's
  pr_raw :: "sample_queue list"
  pr_store :: "sample_queue list"
  pr_logs :: "log_msg list"
  pr_popped :: "water_sample list"
  pr_pushed :: "water_sample list"

definition processor_iteration ::
    "(u8 list \<Rightarrow> 's \<Rightarrow> int \<times> 's) \<Rightarrow> processor_ctx \<Rightarrow> proc_iteration \<Rightarrow> proc_locals \<Rightarrow> 's
      \<Rightarrow> 's proc_result option" where
  "processor_iteration dev_write ctx it l dev =
     (case sample_queue_pop (Some (it_raw it)) (Some zero_sample) 500 (it_raw_wakeups it) of
        None \<Rightarrow> None
      | Some (r, raw, smp) \<Rightarrow>
          if r \<noteq> 0
          then Some \<lparr>pr_locals = l, pr_device = dev, pr_raw = [the raw], pr_store = [],
                 pr_logs = [], pr_popped = [], pr_pushed = []\<rparr>
          else
            (case processor_sample dev_write ctx (the smp) l dev of (l1, dev1, logs, s1) \<Rightarrow>
              (case it_store it of
                 None \<Rightarrow> Some \<lparr>pr_locals = l1, pr_device = dev1, pr_raw = [the raw], pr_store = [],
                           pr_logs = logs, pr_popped = [the smp], pr_pushed = []\<rparr>
               | Some sq \<Rightarrow>
                   (case sample_queue_push (Some sq) (Some s1) 100 (it_store_wakeups it) of
                      None \<Rightarrow> None
                    | Some (_, store) \<Rightarrow>
                        Some \<lparr>pr_locals = l1, pr_device = dev1, pr_raw = [the raw], pr_store = [the store],
                          pr_logs = logs, pr_popped = [the smp], pr_pushed = [s1]\<rparr>))))"

text \<open>The iterations until \<^verbatim>\<open>ctx->shutdown\<close> is seen set; \<open>None\<close> while one is blocked.\<close>
fun processor_loop ::
    "(u8 list \<Rightarrow> 's \<Rightarrow> int \<times> 's) \<Rightarrow> processor_ctx \<Rightarrow> proc_iteration list \<Rightarrow> proc_locals \<Rightarrow> 's
      \<Rightarrow> 's proc_result option" where
  "processor_loop dev_write ctx [] l dev =
     Some \<lparr>pr_locals = l, pr_device = dev, pr_raw = [], pr_store = [], pr_logs = [],
       pr_popped = [], pr_pushed = []\<rparr>"
| "processor_loop dev_write ctx (it # its) l dev =
     (case processor_iteration dev_write ctx it l dev of None \<Rightarrow> None
      | Some r \<Rightarrow>
          (case processor_loop dev_write ctx its (pr_locals r) (pr_device r) of None \<Rightarrow> None
           | Some r' \<Rightarrow> Some (r'\<lparr>pr_raw := pr_raw r @ pr_raw r', pr_store := pr_store r @ pr_store r', pr_logs := pr_logs r @ pr_logs r',
               pr_popped := pr_popped r @ pr_popped r', pr_pushed := pr_pushed r @ pr_pushed r'\<rparr>)))"

definition processor_thread ::
    "(u8 list \<Rightarrow> 's \<Rightarrow> int \<times> 's) \<Rightarrow> processor_ctx option \<Rightarrow> bool \<Rightarrow> proc_iteration list \<Rightarrow> 's
      \<Rightarrow> 's proc_result option" where
  "processor_thread dev_write ctx has_raw its dev =
     (case ctx of
        Some c \<Rightarrow>
          if \<not> has_raw then processor_loop dev_write c [] (proc_start (ctx_sample_counter c)) dev
          else
            (case processor_loop dev_write c its (proc_start (ctx_sample_counter c)) dev of None \<Rightarrow> None
             | Some r \<Rightarrow> Some (r\<lparr>pr_logs := [(LOG_LEVEL_INFO, ''processor thread started'')] @ pr_logs r @
                 [(LOG_LEVEL_INFO, ''processor thread stopped (processed '' @
                     fmt_int (proc_counter (pr_locals r)) @ '' samples)'')]\<rparr>))
      | None \<Rightarrow> Some \<lparr>pr_locals = proc_start 0, pr_device = dev, pr_raw = [], pr_store = [],
                  pr_logs = [], pr_popped = [], pr_pushed = []\<rparr>)"


subsection \<open>The alarm word\<close>

text \<open>The alarm word by its five conditions.\<close>
definition alarm_bits :: "bool \<Rightarrow> bool \<Rightarrow> bool \<Rightarrow> bool \<Rightarrow> bool \<Rightarrow> u32" where
  "alarm_bits low high turb cond temp =
     (if low then 1 else 0) + (if high then 2 else 0) + (if turb then 4 else 0)
     + (if cond then 8 else 0) + (if temp then 16 else 0)"

lemma compute_alarm_bits:
  "processor_compute_alarm (Some s) (Some t) =
     alarm_bits (f32_lt (ph s) (ph_min t)) (\<not> f32_lt (ph s) (ph_min t) \<and> f32_gt (ph s) (ph_max t))
       (f32_gt (turbidity s) (turb_max t)) (f32_gt (conductivity s) (cond_max t))
       (f32_gt (temperature s) (temp_max t))"
  by (simp add: processor_compute_alarm_def alarm_bits_def Let_def)

lemma alarm_bits_0: "alarm_bits a b c d e = 0 \<longleftrightarrow> \<not> a \<and> \<not> b \<and> \<not> c \<and> \<not> d \<and> \<not> e"
  by (cases a; cases b; cases c; cases d; cases e) (simp_all add: alarm_bits_def)

lemma f32_mul_u16: "f32_mul (f32_of_int (uint (w :: u16))) f32_001 = Fin False (centi (unat w))"
  using f32_mul_hundredth [OF uint_u16_bound, of w] uint_ge_0 [of w] by (simp add: not_less)

lemma f32_lt_pos: "f32_lt (Fin False j) (Fin False k) \<longleftrightarrow> j < k"
  by simp

lemma register_thresholds:
  fixes w :: u16
  shows "f32_lt (f32_mul (f32_of_int (uint w)) f32_001) (f32_lit 65 10) \<longleftrightarrow> uint w < 650"
    and "f32_gt (f32_mul (f32_of_int (uint w)) f32_001) (f32_lit 85 10) \<longleftrightarrow> 850 < uint w"
    and "f32_gt (f32_mul (f32_of_int (uint w)) f32_001) (f32_lit 5 1) \<longleftrightarrow> 500 < uint w"
    and "f32_gt (f32_of_int (uint w)) (f32_lit 2000 1) \<longleftrightarrow> 2000 < uint w"
    and "f32_gt (f32_mul (f32_of_int (sint w)) f32_001) (f32_lit 45 1) \<longleftrightarrow> 4500 < sint w"
proof -
  have u: "unat w < k \<longleftrightarrow> uint w < int k" "k < unat w \<longleftrightarrow> int k < uint w" for k
    using of_nat_less_iff [of "unat w" k, where 'a = int] of_nat_less_iff [of k "unat w", where 'a = int]
    by simp_all
  show "f32_lt (f32_mul (f32_of_int (uint w)) f32_001) (f32_lit 65 10) \<longleftrightarrow> uint w < 650"
    unfolding f32_mul_u16 centi_thresholds f32_lt_pos centi_lt_650 by (simp add: u)
  show "f32_gt (f32_mul (f32_of_int (uint w)) f32_001) (f32_lit 85 10) \<longleftrightarrow> 850 < uint w"
    unfolding f32_mul_u16 centi_thresholds f32_lt_pos centi_gt_850 by (simp add: u)
  show "f32_gt (f32_mul (f32_of_int (uint w)) f32_001) (f32_lit 5 1) \<longleftrightarrow> 500 < uint w"
    unfolding f32_mul_u16 centi_thresholds f32_lt_pos centi_gt_500 by (simp add: u)
  have "(2000 * 2 ^ 149 :: nat) < unat w * 2 ^ 149 \<longleftrightarrow> 2000 < unat w"
    by (rule mult_less_cancel2 [THEN trans]) simp
  then show "f32_gt (f32_of_int (uint w)) (f32_lit 2000 1) \<longleftrightarrow> 2000 < uint w"
    unfolding f32_of_u16 centi_thresholds f32_lt_pos by (simp add: u)
  show "f32_gt (f32_mul (f32_of_int (sint w)) f32_001) (f32_lit 45 1) \<longleftrightarrow> 4500 < sint w"
    unfolding f32_mul_hundredth [OF sint_u16_bound] centi_thresholds
  proof (cases "sint w < 0")
    case True
    then show "f32_lt (Fin False (45 * 2 ^ 149)) (Fin (sint w < 0) (centi (nat \<bar>sint w\<bar>))) \<longleftrightarrow> 4500 < sint w"
      by simp
  next
    case False
    have "(45 * 2 ^ 149 < centi (nat \<bar>sint w\<bar>)) = (4500 < nat \<bar>sint w\<bar>)" by (rule centi_gt_4500)
    with False show "f32_lt (Fin False (45 * 2 ^ 149)) (Fin (sint w < 0) (centi (nat \<bar>sint w\<bar>))) \<longleftrightarrow> 4500 < sint w"
      by (simp only: if_False f32_lt_pos) linarith
  qed
qed

lemma alarm_of_registers:
  assumes "sample_from_modbus_regs now (Some s0) (Some r) n = Some s" and "7 \<le> n"
  shows "processor_compute_alarm (Some s) (processor_threshold_default (Some t)) =
     alarm_bits (uint (r ! 0) < 650) (850 < uint (r ! 0)) (500 < uint (r ! 2))
       (2000 < uint (r ! 3)) (4500 < sint (r ! 1))"
proof -
  have not_both: "(\<not> uint (r ! 0) < 650 \<and> 850 < uint (r ! 0)) = (850 < uint (r ! 0))" by linarith
  have "ph s = f32_mul (f32_of_int (uint (r ! 0))) f32_001"
    "turbidity s = f32_mul (f32_of_int (uint (r ! 2))) f32_001"
    "conductivity s = f32_of_int (uint (r ! 3))"
    "temperature s = f32_mul (f32_of_int (sint (r ! 1))) f32_001"
    using assms by (auto simp: sample_from_modbus_regs_def)
  then show ?thesis
    using not_both
    by (simp add: processor_threshold_default_def default_threshold_def compute_alarm_bits
        register_thresholds del: One_nat_def)
qed

text \<open>
  The alarm word of a decoded sample under the default thresholds, exactly in
  terms of the registers of the slave: with the scaling by the single-precision \<^verbatim>\<open>0.01f\<close> and the
  comparisons as the code has them, the flags are set for pH registers below 650 and above
  850, turbidity above 500, conductivity above 2000 and a signed temperature above 4500, and
  no other bit ever is.
\<close>
theorem processor_alarm_registers:
  assumes "sample_from_modbus_regs now (Some s0) (Some r) n = Some s" and "7 \<le> n"
  shows "processor_compute_alarm (Some s) (processor_threshold_default (Some t)) =
     alarm_bits (uint (r ! 0) < 650) (850 < uint (r ! 0)) (500 < uint (r ! 2))
       (2000 < uint (r ! 3)) (4500 < sint (r ! 1))"
  using assms by (rule alarm_of_registers)

definition regs_normal :: "u16 list" where
  "regs_normal = [712, 2534, 501, 820, 0, 0, 1280]"

theorem processor_alarm_registers_witness:
  "\<exists>s. sample_from_modbus_regs (0, 0) (Some zero_sample) (Some regs_normal) 7 = Some s
     \<and> processor_compute_alarm (Some s) (processor_threshold_default (Some default_threshold)) = 4"
proof -
  obtain s where s: "sample_from_modbus_regs (0, 0) (Some zero_sample) (Some regs_normal) 7 = Some s"
    using sample_ok_regs [of 7 "(0, 0)" zero_sample regs_normal] by auto
  from processor_alarm_registers [OF s, of default_threshold] s show ?thesis
    by (simp add: regs_normal_def alarm_bits_def)
qed

subsection \<open>Mock data stays below the thresholds\<close>

lemma f32_add_pos: "f32_add (Fin False j) (Fin False k) = f32_pack False (round24 (j + k) 1)"
proof -
  have "nat \<bar>int j + int k\<bar> = j + k" "\<not> int j + int k < 0" by linarith+
  then show ?thesis by (simp only: f32_add.simps units.simps if_False Let_def) simp
qed

lemma mock_ramp:
  fixes lim :: nat
  assumes "n \<le> lim" and "lim < 65536" and "k + centi lim < 2 ^ 277"
    and "round24 (k + centi lim) 1 \<le> hi" and "hi < 2 ^ 277" and "fits24 k"
  shows "\<exists>j. f32_add (Fin False k) (f32_mul (f32_of_int (int n)) f32_001) = Fin False j \<and> k \<le> j \<and> j \<le> hi"
proof -
  have "\<bar>int n\<bar> < 65536" using assms(1,2) by simp
  then have m: "f32_mul (f32_of_int (int n)) f32_001 = Fin False (centi n)"
    by (simp only: f32_mul_hundredth) simp
  have lo: "round24 k 1 \<le> round24 (k + centi n) 1" by (rule round24_mono) simp_all
  have up: "round24 (k + centi n) 1 \<le> round24 (k + centi lim) 1"
    by (rule round24_mono) (use assms(1) centi_mono in simp_all)
  have p: "\<not> 2 ^ 277 \<le> round24 (k + centi n) 1" using up assms(4,5) by linarith
  have "f32_add (Fin False k) (Fin False (centi n)) = Fin False (round24 (k + centi n) 1)"
    using p by (simp only: f32_add_pos f32_pack_def if_False)
  then show ?thesis using lo up assms(4) round24_id [OF assms(6)] by (simp only: m) auto
qed

text \<open>The debounced LED, as a function of the alarm history.\<close>

definition debounce_run :: "bool list \<Rightarrow> proc_locals \<Rightarrow> proc_locals" where
  "debounce_run bs l = fold (\<lambda>b l. fst (debounce b l)) bs l"

lemma debounce_run_snoc: "debounce_run (bs @ [b]) l = fst (debounce b (debounce_run bs l))"
  by (simp add: debounce_run_def)

text \<open>Three alarms in a row at some time, and never two clear samples in a row since.\<close>
definition alarm_latched :: "bool list \<Rightarrow> bool" where
  "alarm_latched bs \<longleftrightarrow> (\<exists>pre mid. bs = pre @ [True, True, True] @ mid \<and> \<not> sublist [False, False] mid)"

lemma sublist_snoc2: "sublist [x, y] (zs @ [z]) \<longleftrightarrow> sublist [x, y] zs \<or> (zs \<noteq> [] \<and> last zs = x \<and> z = y)"
proof
  assume "sublist [x, y] (zs @ [z])"
  then obtain p s where e: "zs @ [z] = p @ [x, y] @ s" by (auto simp: sublist_def)
  show "sublist [x, y] zs \<or> (zs \<noteq> [] \<and> last zs = x \<and> z = y)"
  proof (cases s rule: rev_cases)
    case Nil
    then have "zs @ [z] = (p @ [x]) @ [y]" using e by simp
    then have "zs = p @ [x] \<and> z = y" by (simp only: append1_eq_conv)
    then show ?thesis by simp
  next
    case (snoc s' w)
    then have "zs @ [z] = (p @ [x, y] @ s') @ [w]" using e by simp
    then have "zs = p @ [x, y] @ s'" by (simp only: append1_eq_conv)
    then show ?thesis by (auto simp: sublist_def)
  qed
next
  assume "sublist [x, y] zs \<or> (zs \<noteq> [] \<and> last zs = x \<and> z = y)"
  then show "sublist [x, y] (zs @ [z])"
  proof
    assume "sublist [x, y] zs"
    then obtain p s where "zs = p @ [x, y] @ s" by (auto simp: sublist_def)
    then have "zs @ [z] = p @ [x, y] @ (s @ [z])" by simp
    then show ?thesis unfolding sublist_def by blast
  next
    assume h: "zs \<noteq> [] \<and> last zs = x \<and> z = y"
    then have "zs @ [z] = butlast zs @ [x, y] @ []" by (cases zs rule: rev_cases) auto
    then show ?thesis unfolding sublist_def by blast
  qed
qed


lemma latched_snoc_True:
  "alarm_latched (bs @ [True]) \<longleftrightarrow> alarm_latched bs \<or> (\<exists>pre. bs = pre @ [True, True])"
proof
  assume "alarm_latched (bs @ [True])"
  then obtain pre mid where e: "bs @ [True] = pre @ [True, True, True] @ mid"
    and n: "\<not> sublist [False, False] mid" by (auto simp: alarm_latched_def)
  show "alarm_latched bs \<or> (\<exists>pre. bs = pre @ [True, True])"
  proof (cases mid rule: rev_cases)
    case Nil
    then have "bs @ [True] = (pre @ [True, True]) @ [True]" using e by simp
    then show ?thesis by (simp only: append1_eq_conv) blast
  next
    case (snoc m z)
    then have "bs @ [True] = (pre @ [True, True, True] @ m) @ [z]" using e by simp
    then have "bs = pre @ [True, True, True] @ m" by (simp only: append1_eq_conv)
    with n snoc show ?thesis by (auto simp: alarm_latched_def sublist_snoc2)
  qed
next
  assume "alarm_latched bs \<or> (\<exists>pre. bs = pre @ [True, True])"
  then show "alarm_latched (bs @ [True])"
  proof
    assume "alarm_latched bs"
    then obtain pre mid where "bs = pre @ [True, True, True] @ mid" "\<not> sublist [False, False] mid"
      by (auto simp: alarm_latched_def)
    then have "bs @ [True] = pre @ [True, True, True] @ (mid @ [True])"
      "\<not> sublist [False, False] (mid @ [True])" by (simp_all add: sublist_snoc2)
    then show ?thesis unfolding alarm_latched_def by blast
  next
    assume "\<exists>pre. bs = pre @ [True, True]"
    then obtain pre where "bs @ [True] = pre @ [True, True, True] @ []" by auto
    then show ?thesis unfolding alarm_latched_def by (metis sublist_Nil_right list.discI)
  qed
qed

lemma latched_snoc_False:
  "alarm_latched (bs @ [False]) \<longleftrightarrow> alarm_latched bs \<and> last bs"
proof
  assume "alarm_latched (bs @ [False])"
  then obtain pre mid where e: "bs @ [False] = pre @ [True, True, True] @ mid"
    and n: "\<not> sublist [False, False] mid" by (auto simp: alarm_latched_def)
  show "alarm_latched bs \<and> last bs"
  proof (cases mid rule: rev_cases)
    case Nil
    then have "bs @ [False] = (pre @ [True, True]) @ [True]" using e by simp
    then show ?thesis by (simp only: append1_eq_conv) simp
  next
    case (snoc m z)
    then have "bs @ [False] = (pre @ [True, True, True] @ m) @ [z]" using e by simp
    then have bs: "bs = pre @ [True, True, True] @ m" and z: "z = False" by (simp_all only: append1_eq_conv)
    have "\<not> sublist [False, False] m" "m = [] \<or> last m" using n snoc z by (auto simp: sublist_snoc2)
    then show ?thesis using bs by (auto simp: alarm_latched_def)
  qed
next
  assume l: "alarm_latched bs \<and> last bs"
  then obtain pre mid where bs: "bs = pre @ [True, True, True] @ mid" "\<not> sublist [False, False] mid"
    by (auto simp: alarm_latched_def)
  have "mid = [] \<or> last mid" using l bs(1) by (cases mid rule: rev_cases) auto
  with bs(2) have "\<not> sublist [False, False] (mid @ [False])" by (auto simp only: sublist_snoc2)
  moreover have "bs @ [False] = pre @ [True, True, True] @ (mid @ [False])" using bs(1) by simp
  ultimately show "alarm_latched (bs @ [False])" unfolding alarm_latched_def by blast
qed

lemma trailing_two:
  "2 \<le> length (takeWhile (\<lambda>b. b) (rev bs)) \<longleftrightarrow> (\<exists>pre. bs = pre @ [True, True])"
proof
  assume l: "2 \<le> length (takeWhile (\<lambda>b. b) (rev bs))"
  then obtain x y r where r: "rev bs = x # y # r" by (cases "rev bs"; cases "tl (rev bs)") (auto split: if_splits)
  then have "x \<and> y" using l by (auto split: if_splits)
  moreover have "bs = rev r @ [y, x]" using r by (metis append.assoc append_Cons append_Nil rev.simps(2) rev_rev_ident)
  ultimately show "\<exists>pre. bs = pre @ [True, True]" by auto
qed auto

lemma debounce_history:
  "led_on (debounce_run bs (proc_start n)) = alarm_latched bs
   \<and> alarm_cnt (debounce_run bs (proc_start n)) = int (length (takeWhile (\<lambda>b. b) (rev bs)))
   \<and> clear_cnt (debounce_run bs (proc_start n)) = int (length (takeWhile Not (rev bs)))
   \<and> proc_counter (debounce_run bs (proc_start n)) = n"
proof (induction bs rule: rev_induct)
  case Nil
  show ?case by (simp add: debounce_run_def proc_start_def alarm_latched_def)
next
  case (snoc b bs)
  let ?l = "debounce_run bs (proc_start n)"
  have last: "alarm_latched bs \<Longrightarrow> takeWhile Not (rev bs) = [] \<longleftrightarrow> last bs"
    by (cases bs rule: rev_cases) (auto simp: alarm_latched_def)
  have two: "2 \<le> alarm_cnt ?l \<longleftrightarrow> (\<exists>pre. bs = pre @ [True, True])"
    using snoc.IH trailing_two [of bs] by simp
  have one: "1 \<le> clear_cnt ?l \<longleftrightarrow> takeWhile Not (rev bs) \<noteq> []"
    using snoc.IH by (cases "takeWhile Not (rev bs)") simp_all
  show ?case
    using snoc.IH two one last
    by (cases b) (auto simp: debounce_run_snoc debounce_def Let_def latched_snoc_True latched_snoc_False)
qed

text \<open>
  Property C24. The debounced alarm, as a function of the whole history: after the alarm words
  of any sequence of samples the thread believes its LED on exactly when three consecutive
  samples had an alarm at some time and no two consecutive samples since then were clear.
\<close>
theorem debounce_latches:
  "led_on (debounce_run bs (proc_start n)) \<longleftrightarrow>
     (\<exists>pre mid. bs = pre @ [True, True, True] @ mid \<and> \<not> sublist [False, False] mid)"
  using debounce_history [of bs n] by (simp add: alarm_latched_def)


subsection \<open>The whole loop\<close>

definition has_alarm :: "processor_threshold \<Rightarrow> water_sample \<Rightarrow> bool" where
  "has_alarm th s \<longleftrightarrow> processor_compute_alarm (Some s) (Some th) \<noteq> 0"

definition mark_alarm :: "processor_threshold \<Rightarrow> water_sample \<Rightarrow> water_sample" where
  "mark_alarm th s = s\<lparr>alarm_status := alarm_status s OR processor_compute_alarm (Some s) (Some th)\<rparr>"

lemma mark_no_alarm: "\<not> has_alarm th s \<Longrightarrow> mark_alarm th s = s"
  by (simp add: has_alarm_def mark_alarm_def)

lemma debounce_counter:
  "debounce b (l\<lparr>proc_counter := n\<rparr>) = ((fst (debounce b l))\<lparr>proc_counter := n\<rparr>, snd (debounce b l))"
  by (simp add: debounce_def Let_def)

lemma debounce_run_counter:
  "debounce_run bs (l\<lparr>proc_counter := n\<rparr>) = (debounce_run bs l)\<lparr>proc_counter := n\<rparr>"
  by (induction bs arbitrary: l) (simp_all add: debounce_run_def debounce_counter)

lemma debounce_run_Cons: "debounce_run (b # bs) l = debounce_run bs (fst (debounce b l))"
  by (simp add: debounce_run_def)

lemma debounce_cmd:
  "snd (debounce b l) = (if led_on (fst (debounce b l)) = led_on l then None
     else Some (led_on (fst (debounce b l))))"
  by (simp add: debounce_def Let_def)

lemma processor_sample_parts:
  assumes "processor_sample dw ctx s l dev = (l', dev', logs, s')"
  shows "l' = (fst (debounce (has_alarm (thresholds ctx) s) l))\<lparr>proc_counter := proc_counter l + 1\<rparr>"
    and "s' = mark_alarm (thresholds ctx) s"
    and "dev' = (if led_on l' = led_on l then dev
                 else fst (alarm_client_set dw (alarm_fd ctx) (led_on l') dev))"
proof -
  let ?d = "debounce (has_alarm (thresholds ctx) s) (l\<lparr>proc_counter := proc_counter l + 1\<rparr>)"
  have l': "l' = fst ?d"
    using assms by (auto simp: processor_sample_def has_alarm_def Let_def split: prod.splits)
  then show "l' = (fst (debounce (has_alarm (thresholds ctx) s) l))\<lparr>proc_counter := proc_counter l + 1\<rparr>"
    by (simp add: debounce_counter)
  show "s' = mark_alarm (thresholds ctx) s"
    using assms by (auto simp: processor_sample_def mark_alarm_def Let_def split: prod.splits)
  have "dev' = (case snd ?d of None \<Rightarrow> dev | Some on \<Rightarrow> fst (alarm_client_set dw (alarm_fd ctx) on dev))"
    using assms by (auto simp: processor_sample_def has_alarm_def Let_def split: prod.splits option.splits)
  then show "dev' = (if led_on l' = led_on l then dev
      else fst (alarm_client_set dw (alarm_fd ctx) (led_on l') dev))"
    by (simp add: debounce_cmd l')
qed

lemma processor_iteration_cases:
  assumes "processor_iteration dw ctx it l dev = Some r"
  obtains (idle) "pr_locals r = l" "pr_device r = dev" "pr_popped r = []" "pr_pushed r = []" "pr_logs r = []"
  | (sample) s s' where "processor_sample dw ctx s l dev = (pr_locals r, pr_device r, pr_logs r, s')"
      "pr_popped r = [s]" "pr_pushed r = (if it_store it = None then [] else [s'])"
proof -
  from assms obtain rc raw smp where
    "sample_queue_pop (Some (it_raw it)) (Some zero_sample) 500 (it_raw_wakeups it) = Some (rc, raw, smp)"
    by (auto simp: processor_iteration_def split: option.splits)
  with assms show ?thesis
    by (cases "processor_sample dw ctx (the smp) l dev")
      (auto simp: processor_iteration_def split: if_splits option.splits prod.splits
        intro: idle sample)
qed

text \<open>
  The whole loop: what it has made of the locals and what it forwards, in terms of the samples
  it popped.
\<close>
lemma processor_loop_samples:
  "processor_loop dw ctx its l dev = Some r \<Longrightarrow>
     pr_locals r = (debounce_run (map (has_alarm (thresholds ctx)) (pr_popped r)) l)
        \<lparr>proc_counter := proc_counter l + int (length (pr_popped r))\<rparr>
   \<and> (list_all (\<lambda>it. it_store it \<noteq> None) its \<longrightarrow>
        pr_pushed r = map (mark_alarm (thresholds ctx)) (pr_popped r))"
proof (induction its arbitrary: l dev r)
  case Nil
  then have "r = \<lparr>pr_locals = l, pr_device = dev, pr_raw = [], pr_store = [], pr_logs = [],
     pr_popped = [], pr_pushed = []\<rparr>" by simp
  then show ?case by (simp add: debounce_run_def)
next
  case (Cons it its)
  from Cons.prems obtain r1 r2 where i: "processor_iteration dw ctx it l dev = Some r1"
    and lp: "processor_loop dw ctx its (pr_locals r1) (pr_device r1) = Some r2"
    and r: "r = r2\<lparr>pr_raw := pr_raw r1 @ pr_raw r2, pr_store := pr_store r1 @ pr_store r2,
      pr_logs := pr_logs r1 @ pr_logs r2, pr_popped := pr_popped r1 @ pr_popped r2,
      pr_pushed := pr_pushed r1 @ pr_pushed r2\<rparr>"
    by (auto split: option.splits)
  note IH = Cons.IH [OF lp]
  from i show ?case
  proof (cases rule: processor_iteration_cases)
    case idle
    with IH r show ?thesis by simp
  next
    case (sample s s')
    note p = processor_sample_parts [OF sample(1)]
    show ?thesis
      using IH sample(2,3) p(2)
      by (simp add: r p(1) debounce_run_Cons debounce_run_counter)
  qed
qed

text \<open>The LED of the driver always shows the local variable \<^verbatim>\<open>led_on\<close>.\<close>
lemma processor_loop_led:
  assumes "copy_contract cfu" and "readable cfu" and "0 \<le> alarm_fd ctx"
  shows "processor_loop (led_device cfu) ctx its l dev = Some r \<Longrightarrow> led_lit dev = led_on l \<Longrightarrow>
    led_lit (pr_device r) = led_on (pr_locals r) \<and> led_rest (pr_device r) = led_rest dev"
proof (induction its arbitrary: l dev r)
  case (Cons it its)
  from Cons.prems obtain r1 r2 where i: "processor_iteration (led_device cfu) ctx it l dev = Some r1"
    and lp: "processor_loop (led_device cfu) ctx its (pr_locals r1) (pr_device r1) = Some r2"
    and r: "pr_device r = pr_device r2" "pr_locals r = pr_locals r2"
    by (auto split: option.splits)
  have one: "led_lit (pr_device r1) = led_on (pr_locals r1) \<and> led_rest (pr_device r1) = led_rest dev"
    using i
  proof (cases rule: processor_iteration_cases)
    case idle
    with Cons.prems show ?thesis by simp
  next
    case (sample s s')
    from processor_sample_parts(3) [OF sample(1)] Cons.prems(2) assms(3) show ?thesis
      using led.others_switch by (simp add: alarm_client_set_driver [OF assms(1,2)])
  qed
  with Cons.IH [OF lp] r show ?case by simp
qed auto


text \<open>
  Property C20. Forwarding: the processor thread hands the samples it pops to the store queue one
  by one, in order, none missing and none twice; each is unchanged except that its alarm word is
  ORed into \<^verbatim>\<open>alarm_status\<close>, and the final counter is the number of samples.
\<close>
theorem processor_thread_forwards:
  assumes "processor_thread dw (Some ctx) True its dev = Some r"
    and "list_all (\<lambda>it. it_store it \<noteq> None) its"
  shows "pr_pushed r = map (\<lambda>s. s\<lparr>alarm_status := alarm_status s OR
        processor_compute_alarm (Some s) (Some (thresholds ctx))\<rparr>) (pr_popped r)
    \<and> proc_counter (pr_locals r) = ctx_sample_counter ctx + int (length (pr_popped r))"
proof -
  from assms(1) obtain r0 where l: "processor_loop dw ctx its (proc_start (ctx_sample_counter ctx)) dev = Some r0"
    and r: "pr_pushed r = pr_pushed r0" "pr_popped r = pr_popped r0" "pr_locals r = pr_locals r0"
    by (auto simp: processor_thread_def split: option.splits)
  from processor_loop_samples [OF l] assms(2) show ?thesis
    by (simp add: r proc_start_def mark_alarm_def cong: map_cong)
qed

text \<open>
  Property C21. The hardware alarm, end to end: with the LED out at the start and the driver
  behind an open descriptor, after any run of the thread the LED (bit 3 of the GPIO data
  register) is lit exactly when, among the samples processed, three consecutive ones crossed a
  threshold and no two consecutive later ones were clear; nothing else in the device registers
  has changed.
\<close>
theorem processor_thread_led:
  assumes "copy_contract cfu" and "readable cfu" and "0 \<le> alarm_fd ctx" and "\<not> led_lit dev"
    and "processor_thread (led_device cfu) (Some ctx) True its dev = Some r"
    and "bs = map (\<lambda>s. processor_compute_alarm (Some s) (Some (thresholds ctx)) \<noteq> 0) (pr_popped r)"
  shows "(led_lit (pr_device r) \<longleftrightarrow>
      (\<exists>pre mid. bs = pre @ [True, True, True] @ mid \<and> \<not> sublist [False, False] mid))
    \<and> led_rest (pr_device r) = led_rest dev"
proof -
  from assms(5) obtain r0 where l: "processor_loop (led_device cfu) ctx its (proc_start (ctx_sample_counter ctx)) dev = Some r0"
    and r: "pr_device r = pr_device r0" "pr_popped r = pr_popped r0" "pr_locals r = pr_locals r0"
    by (auto simp: processor_thread_def split: option.splits)
  have "led_lit dev = led_on (proc_start (ctx_sample_counter ctx))" using assms(4) by (simp add: proc_start_def)
  from processor_loop_led [OF assms(1-3) l this] processor_loop_samples [OF l]
    debounce_history [of bs "ctx_sample_counter ctx"]
  show ?thesis
    unfolding r assms(6) by (simp add: alarm_latched_def has_alarm_def cong: map_cong)
qed

text \<open>A run for the witnesses: a queue with three alarming samples, popped one after another.\<close>

definition hot_sample :: water_sample where
  "hot_sample = zero_sample\<lparr>ph := f32_lit 7 1, temperature := f32_lit 50 1\<rparr>"

definition hot_queue :: sample_queue where
  "hot_queue = queue_put hot_sample small_queue"

definition hot_iteration :: proc_iteration where
  "hot_iteration = \<lparr>it_raw = hot_queue, it_raw_wakeups = [], it_store = Some small_queue, it_store_wakeups = []\<rparr>"

definition hot_ctx :: processor_ctx where
  "hot_ctx = \<lparr>thresholds = default_threshold, alarm_fd = 4, ctx_sample_counter = 0\<rparr>"

lemma small_queue_open: "q_count small_queue = 0" "q_capacity small_queue = 2" "\<not> q_shutdown small_queue"
  using create_queue [OF small_queue] by (auto simp: queue_list_def)

lemma hot_iteration_pops:
  "\<exists>r. processor_iteration dw ctx hot_iteration l dev = Some r \<and> pr_popped r = [hot_sample]"
proof -
  have q: "queue_inv hot_queue" "queue_list hot_queue = [hot_sample]"
    using push_commit_open [OF small_queue_inv small_queue_open(3), of hot_sample] create_queue(2) [OF small_queue]
    by (simp_all add: hot_queue_def queue_put_eq small_queue_open)
  then have c: "q_count hot_queue = 1" by (metis length_queue_list length_Cons list.size(3) One_nat_def)
  obtain q' where p: "pop_commit hot_queue = (Some hot_sample, q')"
    using pop_commit_nonempty(1) [OF q(1)] c q(2) by (cases "pop_commit hot_queue") auto
  then have "sample_queue_pop (Some hot_queue) (Some zero_sample) 500 [] = Some (0, Some q', Some hot_sample)"
    using c by (simp add: sample_queue_pop_def)
  then show ?thesis
    using small_queue_open
    by (simp add: processor_iteration_def hot_iteration_def sample_queue_push_def push_commit_def
        split: prod.split)
qed

lemma hot_sample_alarm: "processor_compute_alarm (Some hot_sample) (Some default_threshold) = 16"
  by (simp add: compute_alarm_bits alarm_bits_def hot_sample_def default_threshold_def round_eval
      zero_sample_def)

lemma hot_run:
  "\<exists>r. processor_thread dw (Some hot_ctx) True (replicate n hot_iteration) dev = Some r
     \<and> pr_popped r = replicate n hot_sample"
proof -
  have "\<exists>r. processor_loop dw hot_ctx (replicate n hot_iteration) l dev = Some r
      \<and> pr_popped r = replicate n hot_sample" for l dev
  proof (induction n arbitrary: l dev)
    case (Suc n)
    obtain r1 where r1: "processor_iteration dw hot_ctx hot_iteration l dev = Some r1" "pr_popped r1 = [hot_sample]"
      using hot_iteration_pops [of dw hot_ctx l dev] by blast
    obtain r2 where "processor_loop dw hot_ctx (replicate n hot_iteration) (pr_locals r1) (pr_device r1) = Some r2"
      "pr_popped r2 = replicate n hot_sample" using Suc.IH by blast
    with r1 show ?case by simp
  qed simp
  then obtain r where "processor_loop dw hot_ctx (replicate n hot_iteration)
      (proc_start (ctx_sample_counter hot_ctx)) dev = Some r" "pr_popped r = replicate n hot_sample" by blast
  then show ?thesis by (simp add: processor_thread_def)
qed

theorem processor_thread_forwards_witness:
  "\<exists>r. processor_thread (led_device plain_copy) (Some hot_ctx) True [hot_iteration, hot_iteration] led_regs0 = Some r
     \<and> pr_pushed r = replicate 2 (hot_sample\<lparr>alarm_status := 16\<rparr>)"
proof -
  obtain r where r: "processor_thread (led_device plain_copy) (Some hot_ctx) True (replicate 2 hot_iteration) led_regs0
      = Some r" "pr_popped r = replicate 2 hot_sample"
    using hot_run [of "led_device plain_copy" 2 led_regs0] by blast
  have "alarm_status hot_sample = 0" by (simp add: hot_sample_def zero_sample_def)
  with processor_thread_forwards [OF r(1)] r hot_sample_alarm show ?thesis
    by (simp add: numeral_2_eq_2 hot_iteration_def hot_ctx_def)
qed

theorem processor_thread_led_witness:
  "\<exists>r. processor_thread (led_device plain_copy) (Some hot_ctx) True (replicate 3 hot_iteration) led_regs0 = Some r
     \<and> led_lit (pr_device r)"
proof -
  obtain r where r: "processor_thread (led_device plain_copy) (Some hot_ctx) True (replicate 3 hot_iteration) led_regs0
      = Some r" "pr_popped r = replicate 3 hot_sample"
    using hot_run [of "led_device plain_copy" 3 led_regs0] by blast
  have off: "\<not> led_lit led_regs0" by (simp add: led_lit_def led_regs0_def bit_iff_odd)
  have bs: "map (\<lambda>s. processor_compute_alarm (Some s) (Some (thresholds hot_ctx)) \<noteq> 0) (pr_popped r)
      = [] @ [True, True, True] @ []"
    using r(2) hot_sample_alarm by (simp add: hot_ctx_def numeral_3_eq_3)
  have "0 \<le> alarm_fd hot_ctx" by (simp add: hot_ctx_def)
  from processor_thread_led [OF plain_copy_ok this off r(1) refl] r(1)
  show ?thesis unfolding bs by (metis sublist_Nil_right list.discI)
qed


subsection \<open>Mock data and the text of an alarm\<close>

lemma mod_word_nat:
  assumes "0 < (k :: u32)"
  shows "\<exists>n < unat k. uint (seq mod k) = int n"
proof -
  have "seq mod k < k" using assms by (rule word_mod_less_divisor)
  then show ?thesis by (intro exI [of _ "unat (seq mod k)"]) (simp add: word_less_nat_alt)
qed

lemma mock_ranges:
  assumes "snd (sample_generate_mock now g (Some s0)) = Some s"
  shows "\<exists>a b c d. ph s = Fin False a \<and> 7 * 2 ^ 149 \<le> a \<and> a \<le> 17 * 2 ^ 148
    \<and> temperature s = Fin False b \<and> b \<le> 45 * 2 ^ 149
    \<and> turbidity s = Fin False c \<and> c \<le> 5 * 2 ^ 149
    \<and> conductivity s = Fin False d \<and> d \<le> 2000 * 2 ^ 149"
proof -
  let ?q = "g + 1"
  obtain n1 where n1: "n1 \<le> 19" "uint (?q mod 20) = int n1" using mod_word_nat [of 20 ?q] by force
  obtain n2 where n2: "n2 \<le> 49" "uint (?q mod 50) = int n2" using mod_word_nat [of 50 ?q] by force
  obtain n3 where n3: "n3 \<le> 29" "uint (?q mod 30) = int n3" using mod_word_nat [of 30 ?q] by force
  obtain n4 where n4: "n4 < 40" "uint (?q mod 40) = int n4" using mod_word_nat [of 40 ?q] by force
  have lits: "f32_lit 7 1 = Fin False (7 * 2 ^ 149)" "f32_lit 25 1 = Fin False (25 * 2 ^ 149)"
    "f32_lit 3 1 = Fin False (3 * 2 ^ 149)" "f32_lit 800 1 = Fin False (800 * 2 ^ 149)"
    by (simp_all add: round_eval)
  have f: "fits24 (k * 2 ^ 149)" if "k < 2 ^ 24" for k using that by (rule fits24_mult)
  obtain a where a: "f32_add (f32_lit 7 1) (f32_mul (f32_of_int (int n1)) f32_001) = Fin False a"
    "7 * 2 ^ 149 \<le> a" "a \<le> 17 * 2 ^ 148"
    using mock_ramp [OF n1(1), of "7 * 2 ^ 149" "17 * 2 ^ 148"] f [of 7]
    unfolding lits by (auto simp: centi_def hundredth_def round_eval)
  obtain b where b: "f32_add (f32_lit 25 1) (f32_mul (f32_of_int (int n2)) f32_001) = Fin False b"
    "b \<le> 45 * 2 ^ 149"
    using mock_ramp [OF n2(1), of "25 * 2 ^ 149" "45 * 2 ^ 149"] f [of 25]
    unfolding lits by (auto simp: centi_def hundredth_def round_eval)
  obtain c where c: "f32_add (f32_lit 3 1) (f32_mul (f32_of_int (int n3)) f32_001) = Fin False c"
    "c \<le> 5 * 2 ^ 149"
    using mock_ramp [OF n3(1), of "3 * 2 ^ 149" "5 * 2 ^ 149"] f [of 3]
    unfolding lits by (auto simp: centi_def hundredth_def round_eval)
  have i: "f32_of_int (int n4) = Fin False (n4 * 2 ^ 149)"
    using n4(1) by (subst f32_of_int_small) simp_all
  have "(800 + n4) * 2 ^ 149 < 1000 * 2 ^ 149" using n4(1) by (intro mult_less_mono1) simp_all
  also have "\<dots> < (2::nat) ^ 277" by simp
  finally have p: "\<not> 2 ^ 277 \<le> (800 + n4) * 2 ^ 149" by (simp only: not_le)
  have r: "round24 ((800 + n4) * 2 ^ 149) 1 = (800 + n4) * 2 ^ 149" using n4(1) by (intro round24_int) simp
  have d: "f32_add (f32_lit 800 1) (f32_of_int (int n4)) = Fin False ((800 + n4) * 2 ^ 149)"
    unfolding lits i f32_add_pos add_mult_distrib [symmetric] r f32_pack_def using p by (simp only: if_False)
  have "(800 + n4) * 2 ^ 149 \<le> 2000 * 2 ^ 149" using n4(1) by (intro mult_le_mono1) simp
  moreover have "ph s = f32_add (f32_lit 7 1) (f32_mul (f32_of_int (int n1)) f32_001)"
    "temperature s = f32_add (f32_lit 25 1) (f32_mul (f32_of_int (int n2)) f32_001)"
    "turbidity s = f32_add (f32_lit 3 1) (f32_mul (f32_of_int (int n3)) f32_001)"
    "conductivity s = f32_add (f32_lit 800 1) (f32_of_int (int n4))"
    using assms by (auto simp: sample_generate_mock_def Let_def n1(2) n2(2) n3(2) n4(2))
  ultimately show ?thesis using a b c d by auto
qed

text \<open>
  Mock data never raises an alarm: whatever the clock and the static sequence
  counter (including its wrap-around), the generated sample is inside the default thresholds.
\<close>
theorem mock_never_alarms:
  assumes "snd (sample_generate_mock now g (Some s0)) = Some s"
  shows "processor_compute_alarm (Some s) (processor_threshold_default (Some t)) = 0"
proof -
  obtain a b c d where "ph s = Fin False a" "7 * 2 ^ 149 \<le> a" "a \<le> 17 * 2 ^ 148"
    "temperature s = Fin False b" "b \<le> 45 * 2 ^ 149" "turbidity s = Fin False c" "c \<le> 5 * 2 ^ 149"
    "conductivity s = Fin False d" "d \<le> 2000 * 2 ^ 149"
    using mock_ranges [OF assms] by blast
  then show ?thesis
    by (simp add: processor_threshold_default_def default_threshold_def compute_alarm_bits
        alarm_bits_0 centi_thresholds not_less del: One_nat_def)
qed

theorem mock_never_alarms_witness:
  "\<exists>s. snd (sample_generate_mock (1700000000, 5) 0xFFFFFFFF (Some zero_sample)) = Some s
     \<and> processor_compute_alarm (Some s) (processor_threshold_default (Some default_threshold)) = 0"
proof -
  obtain s where "snd (sample_generate_mock (1700000000, 5) 0xFFFFFFFF (Some zero_sample)) = Some s"
    using sample_ok_mock by blast
  with mock_never_alarms [OF this] show ?thesis by blast
qed

lemma add_name_fits:
  assumes "n = int (length b)" and "length b + length name < 256"
  shows "add_name alarm flag name (b, n) =
    (b @ (if alarm AND flag \<noteq> 0 then name else []),
     int (length (b @ (if alarm AND flag \<noteq> 0 then name else []))))"
proof -
  have "take (256 - length b - 1) name = name" using assms(2) by (intro take_all) linarith
  then show ?thesis using assms(1) by (simp add: add_name_def snprintf_def)
qed


text \<open>
  The text of an alarm is never cut: it is the names of exactly the flags set, in
  the fixed order, and takes less than 46 of the 256 bytes of its buffer.
\<close>
theorem alarm_text_complete:
  "alarm_text alarm =
     (if alarm AND ALARM_PH_LOW \<noteq> 0 then ''PH_LOW '' else '''') @
     (if alarm AND ALARM_PH_HIGH \<noteq> 0 then ''PH_HIGH '' else '''') @
     (if alarm AND ALARM_TURB_HIGH \<noteq> 0 then ''TURB_HIGH '' else '''') @
     (if alarm AND ALARM_COND_HIGH \<noteq> 0 then ''COND_HIGH '' else '''') @
     (if alarm AND ALARM_TEMP_HIGH \<noteq> 0 then ''TEMP_HIGH '' else '''')
   \<and> length (alarm_text alarm) < 46"
proof -
  let ?p = "\<lambda>flag name. if alarm AND flag \<noteq> 0 then name else ''''"
  have l: "length (?p 1 ''PH_LOW '') \<le> 7" "length (?p 2 ''PH_HIGH '') \<le> 8"
    "length (?p 4 ''TURB_HIGH '') \<le> 10" "length (?p 8 ''COND_HIGH '') \<le> 10"
    "length (?p 16 ''TEMP_HIGH '') \<le> 10"
    by simp_all
  have s1: "add_name alarm 1 ''PH_LOW '' ('''', 0) = (?p 1 ''PH_LOW '', int (length (?p 1 ''PH_LOW '')))"
    by (subst add_name_fits) simp_all
  let ?a2 = "?p 1 ''PH_LOW '' @ ?p 2 ''PH_HIGH ''"
  let ?a3 = "?a2 @ ?p 4 ''TURB_HIGH ''"
  let ?a4 = "?a3 @ ?p 8 ''COND_HIGH ''"
  have s2: "add_name alarm 2 ''PH_HIGH '' (?p 1 ''PH_LOW '', int (length (?p 1 ''PH_LOW '')))
      = (?a2, int (length ?a2))" using l by (intro add_name_fits refl) simp
  have s3: "add_name alarm 4 ''TURB_HIGH '' (?a2, int (length ?a2)) = (?a3, int (length ?a3))"
    using l by (intro add_name_fits refl) simp
  have s4: "add_name alarm 8 ''COND_HIGH '' (?a3, int (length ?a3)) = (?a4, int (length ?a4))"
    using l by (intro add_name_fits refl) simp
  have s5: "add_name alarm 16 ''TEMP_HIGH '' (?a4, int (length ?a4))
      = (?a4 @ ?p 16 ''TEMP_HIGH '', int (length (?a4 @ ?p 16 ''TEMP_HIGH '')))"
    using l by (intro add_name_fits refl) simp
  have t: "alarm_text alarm = ?a4 @ ?p 16 ''TEMP_HIGH ''"
    unfolding alarm_text_def s1 s2 s3 s4 s5 by simp
  have "length (alarm_text alarm) < 46" unfolding t length_append using l by linarith
  with t show ?thesis by (simp only: append.assoc)
qed

end
