(* ===== verification/Sqlite_Store.thy ===== *)
theory Sqlite_Store
  imports Sample_Queue Logger
begin

section \<open>The local store (\<^verbatim>\<open>app/src/sqlite_store.c\<close>)\<close>

text \<open>
  The SQL statements of the store as functions on its one table, the wrappers that prepare and
  step them, and the store thread. The database engine itself is third-party: what it answers to
  a call (it works, the statement cannot be prepared, it cannot be stepped) is an argument, and a
  statement that works does what its text says. Rows are kept in ascending order of \<open>id\<close>;
  a column of type \<^verbatim>\<open>REAL\<close> takes no NaN (it is bound as \<^verbatim>\<open>NULL\<close>) and no negative zero.
\<close>

subsection \<open>The table\<close>

record row =
  row_id :: int
  row_device_id :: string
  row_timestamp_ms :: int
  row_ph :: f64
  row_temperature :: f64
  row_turbidity :: f64
  row_conductivity :: f64
  row_sensor_status :: int
  row_alarm_status :: int
  row_sequence :: int
  row_uploaded :: int
  row_upload_retry :: int

text \<open>The rows and the largest \<open>id\<close> ever given out (\<^verbatim>\<open>AUTOINCREMENT\<close>).\<close>
record table =
  t_rows :: "row list"
  t_seq :: int

record database =
  db_table :: "table option"
  db_indexes :: "string list"
  db_pragmas :: "string list"

datatype fault = Works | Prepare_fails | Step_fails

record sql_env =
  sql_fault :: fault
  sql_errmsg :: string

definition no_fault :: sql_env where
  "no_fault = \<lparr>sql_fault = Works, sql_errmsg = ''''\<rparr>"

text \<open>What a bound \<^verbatim>\<open>double\<close> becomes in a \<^verbatim>\<open>REAL NOT NULL\<close> column; \<open>None\<close> is \<^verbatim>\<open>NULL\<close>.\<close>
fun real_column :: "f64 \<Rightarrow> f64 option" where
  "real_column DNaN = None"
| "real_column (DFin s k) = Some (DFin (s \<and> k \<noteq> 0) k)"
| "real_column (DInf s) = Some (DInf s)"

text \<open>\<^verbatim>\<open>sqlite3_column_int\<close>: the low 32 bits.\<close>
definition column_int :: "int \<Rightarrow> int" where
  "column_int i = sint (word_of_int i :: 32 word)"

subsection \<open>The statements\<close>

definition empty_table :: table where
  "empty_table = \<lparr>t_rows = [], t_seq = 0\<rparr>"

text \<open>\<^verbatim>\<open>INSERT INTO samples (...) VALUES (...)\<close>; \<open>None\<close> when a \<^verbatim>\<open>NOT NULL\<close> column would be \<^verbatim>\<open>NULL\<close>.\<close>
definition sql_insert :: "string \<Rightarrow> water_sample \<Rightarrow> table \<Rightarrow> table option" where
  "sql_insert device_id s t =
     (case (real_column (f64_of_f32 (ph s)), real_column (f64_of_f32 (temperature s)),
            real_column (f64_of_f32 (turbidity s)), real_column (f64_of_f32 (conductivity s))) of
        (Some p, Some te, Some tu, Some c) \<Rightarrow>
          Some (t\<lparr>t_rows := t_rows t @
              [\<lparr>row_id = t_seq t + 1, row_device_id = device_id,
                row_timestamp_ms = timestamp_ms s, row_ph = p, row_temperature = te,
                row_turbidity = tu, row_conductivity = c,
                row_sensor_status = sint (sensor_status s),
                row_alarm_status = sint (alarm_status s), row_sequence = sint (sequence s),
                row_uploaded = 0, row_upload_retry = 0\<rparr>],
            t_seq := t_seq t + 1\<rparr>)
      | _ \<Rightarrow> None)"

definition sql_count_unuploaded :: "table \<Rightarrow> int" where
  "sql_count_unuploaded t = int (length (filter (\<lambda>r. row_uploaded r = 0) (t_rows t)))"

definition sql_count :: "table \<Rightarrow> int" where
  "sql_count t = int (length (t_rows t))"

definition sql_update :: "int \<Rightarrow> (row \<Rightarrow> row) \<Rightarrow> table \<Rightarrow> table" where
  "sql_update i f t = t\<lparr>t_rows := map (\<lambda>r. if row_id r = i then f r else r) (t_rows t)\<rparr>"

text \<open>\<^verbatim>\<open>LIMIT n\<close>: no limit when \<open>n\<close> is negative.\<close>
definition sql_limit :: "int \<Rightarrow> 'a list \<Rightarrow> 'a list" where
  "sql_limit n xs = (if n < 0 then xs else take (nat n) xs)"

definition sql_delete_ids :: "int list \<Rightarrow> table \<Rightarrow> table" where
  "sql_delete_ids ids t = t\<lparr>t_rows := filter (\<lambda>r. row_id r \<notin> set ids) (t_rows t)\<rparr>"

definition sql_delete_uploaded :: "int \<Rightarrow> table \<Rightarrow> table" where
  "sql_delete_uploaded n t =
     sql_delete_ids (sql_limit n (map row_id (filter (\<lambda>r. row_uploaded r = 1) (t_rows t)))) t"

definition sql_delete_oldest :: "int \<Rightarrow> table \<Rightarrow> table" where
  "sql_delete_oldest n t = sql_delete_ids (sql_limit n (map row_id (t_rows t))) t"

subsection \<open>The operations of the store\<close>

text \<open>\<open>Inl msg\<close> is a failing \<^verbatim>\<open>sqlite3_open\<close>, \<open>Inr d\<close> the database opened.\<close>
definition sqlite_store_open ::
    "string option \<Rightarrow> string + database \<Rightarrow> int \<times> database option \<times> log_msg list" where
  "sqlite_store_open db_path outcome =
     (case db_path of None \<Rightarrow> (-1, None, [])
      | Some path \<Rightarrow>
          (case outcome of
             Inl msg \<Rightarrow> (-1, None, [(LOG_LEVEL_ERROR, ''sqlite3_open failed: '' @ msg)])
           | Inr d \<Rightarrow>
               (let d1 = d\<lparr>db_pragmas := db_pragmas d @ [''journal_mode=WAL'']\<rparr>;
                    d2 = d1\<lparr>db_pragmas := db_pragmas d1 @ [''synchronous=NORMAL'']\<rparr>
                in (0, Some d2, [(LOG_LEVEL_INFO, ''sqlite database opened: '' @ path)]))))"

definition add_index :: "string \<Rightarrow> database \<Rightarrow> database" where
  "add_index i d = (if i \<in> set (db_indexes d) then d else d\<lparr>db_indexes := db_indexes d @ [i]\<rparr>)"

definition sqlite_store_create_table ::
    "sql_env \<Rightarrow> sql_env \<Rightarrow> sql_env \<Rightarrow> database option \<Rightarrow> int \<times> database option \<times> log_msg list" where
  "sqlite_store_create_table e1 e2 e3 db =
     (case db of None \<Rightarrow> (-1, None, [])
      | Some d \<Rightarrow>
          if sql_fault e1 \<noteq> Works
          then (-1, Some d, [(LOG_LEVEL_ERROR, ''create table failed: '' @ sql_errmsg e1)])
          else
            (let d1 = d\<lparr>db_table := (case db_table d of None \<Rightarrow> Some empty_table | Some t \<Rightarrow> Some t)\<rparr>
             in if sql_fault e2 \<noteq> Works
                then (-1, Some d1, [(LOG_LEVEL_ERROR, ''create index failed: '' @ sql_errmsg e2)])
                else
                  (let d2 = add_index ''idx_samples_uploaded'' d1;
                       d3 = (if sql_fault e3 = Works then add_index ''idx_samples_timestamp'' d2 else d2)
                   in (0, Some d3, [(LOG_LEVEL_INFO, ''sqlite table 'samples' ready'')]))))"

text \<open>A statement on the table can be prepared when the engine works and the table exists.\<close>
definition prepared :: "sql_env \<Rightarrow> database \<Rightarrow> table option" where
  "prepared e d = (if sql_fault e = Prepare_fails then None else db_table d)"

definition sqlite_store_insert ::
    "sql_env \<Rightarrow> database option \<Rightarrow> string option \<Rightarrow> water_sample option
      \<Rightarrow> int \<times> database option \<times> log_msg list" where
  "sqlite_store_insert e db device_id sample =
     (case (db, device_id, sample) of
        (Some d, Some dev, Some s) \<Rightarrow>
          (case prepared e d of
             None \<Rightarrow> (-1, db, [(LOG_LEVEL_ERROR, ''sqlite3_prepare_v2 (insert) failed: '' @ sql_errmsg e)])
           | Some t \<Rightarrow>
               (case (if sql_fault e = Step_fails then None else sql_insert dev s t) of
                  None \<Rightarrow> (-1, db, [(LOG_LEVEL_ERROR, ''sqlite insert failed: '' @ sql_errmsg e)])
                | Some t' \<Rightarrow> (0, Some (d\<lparr>db_table := Some t'\<rparr>), [])))
      | _ \<Rightarrow> (-1, db, []))"

definition sqlite_store_get_unuploaded_count :: "sql_env \<Rightarrow> database option \<Rightarrow> int" where
  "sqlite_store_get_unuploaded_count e db =
     (case db of None \<Rightarrow> -1
      | Some d \<Rightarrow>
          (case prepared e d of None \<Rightarrow> -1
           | Some t \<Rightarrow> if sql_fault e = Step_fails then 0 else column_int (sql_count_unuploaded t)))"

definition sqlite_store_get_total_count :: "sql_env \<Rightarrow> database option \<Rightarrow> int" where
  "sqlite_store_get_total_count e db =
     (case db of None \<Rightarrow> -1
      | Some d \<Rightarrow>
          (case prepared e d of None \<Rightarrow> -1
           | Some t \<Rightarrow> if sql_fault e = Step_fails then 0 else column_int (sql_count t)))"

text \<open>The two updates, of \<^verbatim>\<open>uploaded\<close> and of \<^verbatim>\<open>upload_retry\<close>.\<close>

definition sqlite_store_mark_uploaded ::
    "sql_env \<Rightarrow> database option \<Rightarrow> int \<Rightarrow> int \<times> database option" where
  "sqlite_store_mark_uploaded e db sample_id =
     (case db of None \<Rightarrow> (-1, None)
      | Some d \<Rightarrow>
          (case prepared e d of None \<Rightarrow> (-1, Some d)
           | Some t \<Rightarrow>
               if sql_fault e = Step_fails then (-1, Some d)
               else (0, Some (d\<lparr>db_table := Some (sql_update sample_id (\<lambda>r. r\<lparr>row_uploaded := 1\<rparr>) t)\<rparr>))))"

definition sqlite_store_inc_retry ::
    "sql_env \<Rightarrow> database option \<Rightarrow> int \<Rightarrow> int \<times> database option" where
  "sqlite_store_inc_retry e db sample_id =
     (case db of None \<Rightarrow> (-1, None)
      | Some d \<Rightarrow>
          (case prepared e d of None \<Rightarrow> (-1, Some d)
           | Some t \<Rightarrow>
               if sql_fault e = Step_fails then (-1, Some d)
               else (0, Some (d\<lparr>db_table := Some (sql_update sample_id
                           (\<lambda>r. r\<lparr>row_upload_retry := row_upload_retry r + 1\<rparr>) t)\<rparr>))))"

text \<open>\<^verbatim>\<open>sqlite3_exec\<close> of one of the two \<^verbatim>\<open>DELETE\<close> statements.\<close>
definition exec_delete :: "sql_env \<Rightarrow> (table \<Rightarrow> table) \<Rightarrow> database \<Rightarrow> bool \<times> database" where
  "exec_delete e del d =
     (case prepared e d of None \<Rightarrow> (False, d)
      | Some t \<Rightarrow> if sql_fault e = Step_fails then (False, d)
                   else (True, d\<lparr>db_table := Some (del t)\<rparr>))"

record trim_env =
  tr_count1 :: sql_env
  tr_delete1 :: sql_env
  tr_count2 :: sql_env
  tr_delete2 :: sql_env

definition sqlite_store_trim_cache ::
    "trim_env \<Rightarrow> database option \<Rightarrow> int \<Rightarrow> int \<times> database option \<times> log_msg list" where
  "sqlite_store_trim_cache e db max_count =
     (case db of None \<Rightarrow> (-1, None, [])
      | Some d \<Rightarrow>
          if max_count \<le> 0 then (-1, Some d, [])
          else
            (let total = sqlite_store_get_total_count (tr_count1 e) (Some d)
             in if total < 0 \<or> total \<le> max_count then (0, Some d, [])
                else
                  (let to_delete = total - max_count
                   in (case exec_delete (tr_delete1 e) (sql_delete_uploaded to_delete) d of
                         (ok, d1) \<Rightarrow>
                           if \<not> ok
                           then (-1, Some d1, [(LOG_LEVEL_ERROR, ''trim cache failed: '' @ sql_errmsg (tr_delete1 e))])
                           else
                             (let total2 = sqlite_store_get_total_count (tr_count2 e) (Some d1)
                              in if total2 > max_count
                                 then (0, Some (snd (exec_delete (tr_delete2 e)
                                              (sql_delete_oldest (total2 - max_count)) d1)), [])
                                 else (0, Some d1, []))))))"

definition sqlite_store_close :: "database option \<Rightarrow> log_msg list" where
  "sqlite_store_close db =
     (case db of None \<Rightarrow> [] | Some _ \<Rightarrow> [(LOG_LEVEL_INFO, ''sqlite database closed'')])"


subsection \<open>The store thread\<close>

text \<open>The counters of \<^verbatim>\<open>sqlite_store_ctx_t\<close> and the two settings the thread reads.\<close>
record store_ctx =
  st_device_id :: string
  st_max_cache_count :: int
  st_sample_counter :: int
  st_write_count :: ulong
  st_write_fail_count :: ulong

text \<open>The body shared by the loop and the final drain: one popped sample is inserted and counted.\<close>
definition store_sample ::
    "sql_env \<Rightarrow> water_sample \<Rightarrow> store_ctx \<Rightarrow> database \<Rightarrow> store_ctx \<times> database \<times> log_msg list" where
  "store_sample e s ctx db =
     (let ctx1 = ctx\<lparr>st_sample_counter := st_sample_counter ctx + 1\<rparr>
      in (case sqlite_store_insert e (Some db) (Some (st_device_id ctx1)) (Some s) of
            (rc, db1, logs) \<Rightarrow>
              (if rc = 0 then ctx1\<lparr>st_write_count := st_write_count ctx1 + 1\<rparr>
               else ctx1\<lparr>st_write_fail_count := st_write_fail_count ctx1 + 1\<rparr>,
               the db1, logs)))"

text \<open>
  What one iteration meets: the queue and the wake-ups of its pop, what the other threads have
  done to the database in between, and the answers of the engine.
\<close>
record store_iteration =
  si_queue :: sample_queue
  si_wakeups :: "wakeup list"
  si_others :: "database \<Rightarrow> database"
  si_insert :: sql_env
  si_trim :: trim_env

definition store_iteration_step ::
    "store_iteration \<Rightarrow> store_ctx \<Rightarrow> database
      \<Rightarrow> (store_ctx \<times> database \<times> sample_queue \<times> water_sample list \<times> log_msg list) option" where
  "store_iteration_step it ctx db0 =
     (let db = si_others it db0
      in (case sample_queue_pop (Some (si_queue it)) (Some zero_sample) 500 (si_wakeups it) of
            None \<Rightarrow> None
          | Some (r, q, smp) \<Rightarrow>
              if r \<noteq> 0 then Some (ctx, db, the q, [], [])
              else
                (case store_sample (si_insert it) (the smp) ctx db of
                   (ctx1, db1, logs1) \<Rightarrow>
                     if st_max_cache_count ctx1 > 0 \<and> c_mod (st_sample_counter ctx1) 100 = 0
                     then (case sqlite_store_trim_cache (si_trim it) (Some db1) (st_max_cache_count ctx1) of
                             (_, db2, logs2) \<Rightarrow> Some (ctx1, the db2, the q, [the smp], logs1 @ logs2))
                     else Some (ctx1, db1, the q, [the smp], logs1))))"

text \<open>The iterations until \<^verbatim>\<open>ctx->shutdown\<close> is seen set; \<open>None\<close> while one is blocked.\<close>
fun store_loop ::
    "store_iteration list \<Rightarrow> store_ctx \<Rightarrow> database
      \<Rightarrow> (store_ctx \<times> database \<times> water_sample list \<times> log_msg list) option" where
  "store_loop [] ctx db = Some (ctx, db, [], [])"
| "store_loop (it # its) ctx db =
     (case store_iteration_step it ctx db of None \<Rightarrow> None
      | Some (ctx1, db1, _, popped1, logs1) \<Rightarrow>
          (case store_loop its ctx1 db1 of None \<Rightarrow> None
           | Some (ctx2, db2, popped2, logs2) \<Rightarrow> Some (ctx2, db2, popped1 @ popped2, logs1 @ logs2)))"

lemma pop_count_less:
  assumes "sample_queue_pop (Some q) b t [] = Some (0, Some q1, s)" and "0 < q_count q"
  shows "q_count q1 < q_count q"
  using assms by (auto simp: sample_queue_pop_def pop_commit_def split: option.splits if_splits)

text \<open>
  The final drain. The queue has been shut down, so nobody else puts into it; \<open>es n\<close> answers the
  \<open>n\<close>-th insertion.
\<close>
function store_drain ::
    "(nat \<Rightarrow> sql_env) \<Rightarrow> nat \<Rightarrow> sample_queue \<Rightarrow> store_ctx \<Rightarrow> database
      \<Rightarrow> sample_queue \<times> store_ctx \<times> database \<times> log_msg list" where
  "store_drain es n q ctx db =
     (if sample_queue_count (Some q) > 0 then
        (case sample_queue_pop (Some q) (Some zero_sample) 100 [] of
           Some (r, Some q1, Some s) \<Rightarrow>
             if r \<noteq> 0 then (q1, ctx, db, [])
             else
               (case store_sample (es n) s ctx db of
                  (ctx1, db1, logs1) \<Rightarrow>
                    (case store_drain es (Suc n) q1 ctx1 db1 of
                       (q2, ctx2, db2, logs2) \<Rightarrow> (q2, ctx2, db2, logs1 @ logs2)))
         | _ \<Rightarrow> (q, ctx, db, []))
      else (q, ctx, db, []))"
  by pat_completeness auto
termination
  by (relation "measure (\<lambda>(es, n, q, ctx, db). q_count q)")
    (auto simp: sample_queue_count_def intro: pop_count_less)

declare store_drain.simps [simp del]

text \<open>The whole thread, from the iterations to the last trim and the closing line.\<close>
definition sqlite_store_thread ::
    "store_iteration list \<Rightarrow> sample_queue \<Rightarrow> (database \<Rightarrow> database) \<Rightarrow> (nat \<Rightarrow> sql_env) \<Rightarrow> trim_env
      \<Rightarrow> store_ctx \<Rightarrow> database \<Rightarrow> (store_ctx \<times> database \<times> sample_queue \<times> log_msg list) option" where
  "sqlite_store_thread its q others es te ctx db =
     (case store_loop its ctx db of None \<Rightarrow> None
      | Some (ctx1, db1, _, logs1) \<Rightarrow>
          (case store_drain es 0 q ctx1 (others db1) of
             (q2, ctx2, db2, logs2) \<Rightarrow>
               (case sqlite_store_trim_cache te (Some db2) (st_max_cache_count ctx2) of
                  (_, db3, logs3) \<Rightarrow>
                    Some (ctx2, the db3, q2,
                      [(LOG_LEVEL_INFO, ''store thread started'')] @ logs1 @ logs2 @ logs3 @
                      [(LOG_LEVEL_INFO, ''store thread stopped (processed '' @
                          fmt_int (st_sample_counter ctx2) @ '' samples, written '' @
                          fmt_nat (unat (st_write_count ctx2)) @ '', failed '' @
                          fmt_nat (unat (st_write_fail_count ctx2)) @ '')'')]))))"

subsection \<open>Keyed rows: the interface of the table\<close>

text \<open>The first \<open>n\<close> elements with a property are dropped.\<close>
fun drop_first :: "('a \<Rightarrow> bool) \<Rightarrow> nat \<Rightarrow> 'a list \<Rightarrow> 'a list" where
  "drop_first P 0 xs = xs"
| "drop_first P (Suc n) [] = []"
| "drop_first P (Suc n) (x # xs) = (if P x then drop_first P n xs else x # drop_first P (Suc n) xs)"

lemma drop_first_Nil [simp]: "drop_first P n [] = []"
  by (cases n) simp_all

lemma drop_first_True: "drop_first (\<lambda>x. True) n xs = drop n xs"
  by (induction "\<lambda>x :: 'a. True" n xs rule: drop_first.induct) simp_all

lemma drop_first_subset: "set (drop_first P n xs) \<subseteq> set xs"
  by (induction P n xs rule: drop_first.induct) auto

lemma drop_first_keeps: "filter (\<lambda>x. \<not> P x) (drop_first P n xs) = filter (\<lambda>x. \<not> P x) xs"
  by (induction P n xs rule: drop_first.induct) auto

lemma drop_first_drops: "filter P (drop_first P n xs) = drop n (filter P xs)"
  by (induction P n xs rule: drop_first.induct) auto

lemma length_drop_first: "length (drop_first P n xs) = length xs - min n (length (filter P xs))"
proof (induction P n xs rule: drop_first.induct)
  case (3 P n x xs)
  have "min (Suc n) (length (filter P xs)) \<le> length xs" "min n (length (filter P xs)) \<le> length xs"
    using length_filter_le [of P xs] by (auto intro: min.coboundedI2)
  with 3 show ?case by (auto simp: Suc_diff_le)
qed simp_all

lemma drop_first_sorted:
  "sorted_wrt R (map f xs) \<Longrightarrow> sorted_wrt R (map f (drop_first P n xs))"
proof (induction P n xs rule: drop_first.induct)
  case (3 P n x xs)
  then show ?case using drop_first_subset [of P "Suc n" xs] by auto
qed simp_all

lemma delete_first:
  assumes "distinct (map f xs)"
  shows "filter (\<lambda>x. f x \<notin> set (take n (map f (filter P xs)))) xs = drop_first P n xs"
  using assms
proof (induction P n xs rule: drop_first.induct)
  case (3 P n x xs)
  show ?case
  proof (cases "P x")
    case True
    have "filter (\<lambda>y. f y \<notin> set (take (Suc n) (map f (filter P (x # xs))))) (x # xs)
        = filter (\<lambda>y. f y \<noteq> f x \<and> f y \<notin> set (take n (map f (filter P xs)))) xs"
      using True by simp
    also have "\<dots> = filter (\<lambda>y. f y \<notin> set (take n (map f (filter P xs)))) xs"
    proof (intro filter_cong refl)
      fix y assume "y \<in> set xs"
      moreover have "f x \<notin> f ` set xs" using 3(3) by simp
      ultimately have "f y \<noteq> f x" by (metis imageI)
      then show "(f y \<noteq> f x \<and> f y \<notin> set (take n (map f (filter P xs))))
          = (f y \<notin> set (take n (map f (filter P xs))))" by simp
    qed
    finally show ?thesis using 3(1) [OF True] 3(3) True by simp
  next
    case False
    have "f x \<notin> set (take (Suc n) (map f (filter P xs)))"
      using 3(3) by (auto dest!: in_set_takeD)
    then show ?thesis using 3(2) [OF False] 3(3) False by simp
  qed
qed simp_all

text \<open>
  What the users of a table rely on: keys strictly ascending and below the next one, an insertion
  appends a row with the next key, an update changes rows of one key and no key, a deletion
  removes exactly the keys listed.
\<close>
locale keyed_rows =
  fixes wf :: "'t \<Rightarrow> bool"
    and rows :: "'t \<Rightarrow> 'r list"
    and key :: "'r \<Rightarrow> int"
    and last_key :: "'t \<Rightarrow> int"
    and insert_row :: "'v \<Rightarrow> 't \<Rightarrow> 't option"
    and update :: "int \<Rightarrow> ('r \<Rightarrow> 'r) \<Rightarrow> 't \<Rightarrow> 't"
    and delete :: "int list \<Rightarrow> 't \<Rightarrow> 't"
  assumes ascending: "wf t \<Longrightarrow> sorted_wrt (<) (map key (rows t))"
    and below: "wf t \<Longrightarrow> r \<in> set (rows t) \<Longrightarrow> key r \<le> last_key t"
    and wf_insert: "wf t \<Longrightarrow> insert_row v t = Some t' \<Longrightarrow> wf t'"
    and insert_rows: "insert_row v t = Some t' \<Longrightarrow> \<exists>r. rows t' = rows t @ [r] \<and> key r = last_key t + 1"
    and insert_last: "insert_row v t = Some t' \<Longrightarrow> last_key t' = last_key t + 1"
    and wf_update: "wf t \<Longrightarrow> (\<And>r. key (f r) = key r) \<Longrightarrow> wf (update i f t)"
    and update_rows: "rows (update i f t) = map (\<lambda>r. if key r = i then f r else r) (rows t)"
    and update_last: "last_key (update i f t) = last_key t"
    and wf_delete: "wf t \<Longrightarrow> wf (delete ks t)"
    and delete_rows: "rows (delete ks t) = filter (\<lambda>r. key r \<notin> set ks) (rows t)"
    and delete_last: "last_key (delete ks t) = last_key t"
begin

lemma keys_distinct: "wf t \<Longrightarrow> distinct (map key (rows t))"
  using ascending strict_sorted_iff [of "map key (rows t)"] by blast

text \<open>Deleting the first \<open>n\<close> keys a query returned drops exactly those rows.\<close>
lemma delete_query:
  "wf t \<Longrightarrow> rows (delete (take n (map key (filter P (rows t)))) t) = drop_first P n (rows t)"
  by (simp add: delete_rows delete_first keys_distinct)

text \<open>A new row never reuses a key, of a present or of a deleted row.\<close>
lemma insert_fresh: "wf t \<Longrightarrow> insert_row v t = Some t' \<Longrightarrow> r \<in> set (rows t) \<Longrightarrow> key r < key (last (rows t'))"
  using insert_rows [of v t t'] below [of t r] by auto

text \<open>An update of one row leaves the others alone and hits that row once.\<close>
lemma update_others:
  assumes "\<And>r. key (f r) = key r"
  shows "filter (\<lambda>r. key r \<noteq> i) (rows (update i f t)) = filter (\<lambda>r. key r \<noteq> i) (rows t)"
proof -
  have "filter (\<lambda>r. key r \<noteq> i) (map (\<lambda>r. if key r = i then f r else r) rs) = filter (\<lambda>r. key r \<noteq> i) rs" for rs
    using assms by (induction rs) auto
  then show ?thesis by (simp add: update_rows)
qed

lemma update_query:
  assumes "\<And>r. key r \<noteq> i \<Longrightarrow> P r \<longleftrightarrow> Q r" and "\<And>r. key r = i \<Longrightarrow> \<not> P (f r)" and "\<And>r. key (f r) = key r"
  shows "filter P (rows (update i f t)) = filter (\<lambda>r. key r \<noteq> i \<and> Q r) (rows t)"
proof -
  have "filter P (map (\<lambda>r. if key r = i then f r else r) rs) = filter (\<lambda>r. key r \<noteq> i \<and> Q r) rs" for rs
    using assms by (induction rs) auto
  then show ?thesis by (simp add: update_rows)
qed

end


subsection \<open>The table of the store is such a table\<close>

definition table_inv :: "table \<Rightarrow> bool" where
  "table_inv t \<longleftrightarrow> sorted_wrt (<) (map row_id (t_rows t)) \<and> list_all (\<lambda>r. 0 < row_id r \<and> row_id r \<le> t_seq t) (t_rows t)
     \<and> 0 \<le> t_seq t"

definition insert_sample :: "string \<times> water_sample \<Rightarrow> table \<Rightarrow> table option" where
  "insert_sample v t = sql_insert (fst v) (snd v) t"

lemma sql_insert_appends:
  "sql_insert dev s t = Some t' \<Longrightarrow>
     \<exists>r. t_rows t' = t_rows t @ [r] \<and> row_id r = t_seq t + 1 \<and> t_seq t' = t_seq t + 1
       \<and> row_device_id r = dev \<and> row_uploaded r = 0 \<and> row_upload_retry r = 0"
  by (auto simp: sql_insert_def split: option.splits)

lemma table_inv_insert: "table_inv t \<Longrightarrow> sql_insert dev s t = Some t' \<Longrightarrow> table_inv t'"
  by (drule sql_insert_appends) (fastforce simp: table_inv_def sorted_wrt_append list_all_iff)

lemma map_row_id_update:
  "(\<And>r. row_id (f r) = row_id r) \<Longrightarrow> map row_id (map (\<lambda>r. if row_id r = i then f r else r) rs) = map row_id rs"
  by (induction rs) auto

lemma table_inv_update: "table_inv t \<Longrightarrow> (\<And>r. row_id (f r) = row_id r) \<Longrightarrow> table_inv (sql_update i f t)"
  unfolding table_inv_def sql_update_def by (auto simp: map_row_id_update list_all_iff simp del: map_map)

lemma sorted_map_filter: "sorted_wrt R (map f xs) \<Longrightarrow> sorted_wrt R (map f (filter P xs))"
  by (induction xs) auto

lemma table_inv_delete: "table_inv t \<Longrightarrow> table_inv (sql_delete_ids ks t)"
  by (auto simp: table_inv_def sql_delete_ids_def list_all_iff sorted_map_filter)

interpretation tbl: keyed_rows table_inv t_rows row_id t_seq insert_sample sql_update sql_delete_ids
proof
  fix t t' :: table and v r f i ks
  show "table_inv t \<Longrightarrow> sorted_wrt (<) (map row_id (t_rows t))" by (simp add: table_inv_def)
  show "table_inv t \<Longrightarrow> r \<in> set (t_rows t) \<Longrightarrow> row_id r \<le> t_seq t" by (auto simp: table_inv_def list_all_iff)
  show "table_inv t \<Longrightarrow> insert_sample v t = Some t' \<Longrightarrow> table_inv t'"
    unfolding insert_sample_def by (rule table_inv_insert)
  show "insert_sample v t = Some t' \<Longrightarrow> \<exists>r. t_rows t' = t_rows t @ [r] \<and> row_id r = t_seq t + 1"
    unfolding insert_sample_def by (blast dest: sql_insert_appends)
  show "insert_sample v t = Some t' \<Longrightarrow> t_seq t' = t_seq t + 1"
    unfolding insert_sample_def by (blast dest: sql_insert_appends)
  show "table_inv t \<Longrightarrow> (\<And>r. row_id (f r) = row_id r) \<Longrightarrow> table_inv (sql_update i f t)"
    by (rule table_inv_update)
  show "t_rows (sql_update i f t) = map (\<lambda>r. if row_id r = i then f r else r) (t_rows t)"
    "t_seq (sql_update i f t) = t_seq t" by (simp_all add: sql_update_def)
  show "table_inv t \<Longrightarrow> table_inv (sql_delete_ids ks t)" by (rule table_inv_delete)
  show "t_rows (sql_delete_ids ks t) = filter (\<lambda>r. row_id r \<notin> set ks) (t_rows t)"
    "t_seq (sql_delete_ids ks t) = t_seq t" by (simp_all add: sql_delete_ids_def)
qed

text \<open>The two deletions, for a limit that is not negative.\<close>

lemma delete_uploaded_rows:
  "table_inv t \<Longrightarrow> 0 \<le> n \<Longrightarrow>
     t_rows (sql_delete_uploaded n t) = drop_first (\<lambda>r. row_uploaded r = 1) (nat n) (t_rows t)"
  unfolding sql_delete_uploaded_def sql_limit_def
  using tbl.delete_query [of t "nat n" "\<lambda>r. row_uploaded r = 1"] by simp

lemma delete_oldest_rows:
  "table_inv t \<Longrightarrow> 0 \<le> n \<Longrightarrow> t_rows (sql_delete_oldest n t) = drop (nat n) (t_rows t)"
  unfolding sql_delete_oldest_def sql_limit_def
  using tbl.delete_query [of t "nat n" "\<lambda>r. True"] by (simp add: drop_first_True)

lemma table_inv_deletes: "table_inv t \<Longrightarrow> table_inv (sql_delete_uploaded n t)" "table_inv t \<Longrightarrow> table_inv (sql_delete_oldest n t)"
  by (simp_all add: sql_delete_uploaded_def sql_delete_oldest_def table_inv_delete)

definition db_inv :: "database \<Rightarrow> bool" where
  "db_inv d \<longleftrightarrow> (case db_table d of None \<Rightarrow> True | Some t \<Rightarrow> table_inv t)"



subsection \<open>Inserting\<close>

fun f32_is_nan :: "f32 \<Rightarrow> bool" where
  "f32_is_nan NaN = True"
| "f32_is_nan _ = False"

definition has_nan :: "water_sample \<Rightarrow> bool" where
  "has_nan s \<longleftrightarrow> f32_is_nan (ph s) \<or> f32_is_nan (temperature s) \<or> f32_is_nan (turbidity s)
     \<or> f32_is_nan (conductivity s)"

lemma real_column_None: "real_column (f64_of_f32 x) = None \<longleftrightarrow> f32_is_nan x"
  by (cases x) simp_all

lemma sql_insert_None: "sql_insert dev s t = None \<longleftrightarrow> has_nan s"
  by (auto simp: sql_insert_def has_nan_def real_column_None [symmetric] split: option.split)

text \<open>
  One insertion. It succeeds exactly when the engine works, the table exists and no
  measured value is NaN; then exactly one row is appended, with the next unused id, the given
  device id, the timestamp and words of the sample, not uploaded and with no retries. Otherwise
  it returns \<^verbatim>\<open>-1\<close>, logs one error and leaves the database as it was.
\<close>
theorem sqlite_store_insert_correct:
  "case sqlite_store_insert e (Some d) (Some dev) (Some s) of (rc, d', logs) \<Rightarrow>
     (if sql_fault e = Works \<and> db_table d \<noteq> None \<and> \<not> has_nan s
      then rc = 0 \<and> logs = [] \<and>
        (\<exists>t t' r. db_table d = Some t \<and> d' = Some (d\<lparr>db_table := Some t'\<rparr>) \<and> t_rows t' = t_rows t @ [r]
           \<and> t_seq t' = t_seq t + 1 \<and> row_id r = t_seq t + 1 \<and> row_device_id r = dev
           \<and> row_timestamp_ms r = timestamp_ms s \<and> row_sequence r = sint (sequence s)
           \<and> row_sensor_status r = sint (sensor_status s) \<and> row_alarm_status r = sint (alarm_status s)
           \<and> row_uploaded r = 0 \<and> row_upload_retry r = 0)
      else rc = -1 \<and> d' = Some d \<and> length logs = 1)"
proof (cases "sql_fault e = Works \<and> db_table d \<noteq> None \<and> \<not> has_nan s")
  case True
  then obtain t where t: "db_table d = Some t" by auto
  obtain t' where t': "sql_insert dev s t = Some t'" using True sql_insert_None [of dev s t] by auto
  then have r: "\<exists>r. t_rows t' = t_rows t @ [r] \<and> t_seq t' = t_seq t + 1 \<and> row_id r = t_seq t + 1 \<and> row_device_id r = dev
           \<and> row_timestamp_ms r = timestamp_ms s \<and> row_sequence r = sint (sequence s)
           \<and> row_sensor_status r = sint (sensor_status s) \<and> row_alarm_status r = sint (alarm_status s)
           \<and> row_uploaded r = 0 \<and> row_upload_retry r = 0"
    by (auto simp: sql_insert_def split: option.splits)
  have i: "sqlite_store_insert e (Some d) (Some dev) (Some s) = (0, Some (d\<lparr>db_table := Some t'\<rparr>), [])"
    using True t t' by (simp add: sqlite_store_insert_def prepared_def)
  have c: "sql_fault e = Works \<and> db_table d \<noteq> None \<and> \<not> has_nan s" by (rule True)
  show ?thesis unfolding i prod.case if_P [OF c] using t r by blast
next
  case False
  then show ?thesis
    using sql_insert_None [of dev s]
    by (cases "sql_fault e") (auto simp: sqlite_store_insert_def prepared_def split: option.splits)
qed

subsection \<open>Trimming\<close>

definition trim_ok :: trim_env where
  "trim_ok = \<lparr>tr_count1 = no_fault, tr_delete1 = no_fault, tr_count2 = no_fault, tr_delete2 = no_fault\<rparr>"

lemma column_int_id: "- 2147483648 \<le> i \<Longrightarrow> i < 2147483648 \<Longrightarrow> column_int i = i"
  by (simp add: column_int_def signed_of_int signed_take_bit_int_eq_self)

text \<open>What is left of the rows after a trim to \<open>m\<close>.\<close>
definition trimmed :: "nat \<Rightarrow> row list \<Rightarrow> row list" where
  "trimmed m rs =
     (let rs1 = drop_first (\<lambda>r. row_uploaded r = 1) (length rs - m) rs
      in drop (length rs1 - m) rs1)"

lemma trim_rows:
  assumes "db_table d = Some t" and "table_inv t" and "0 < m" and "length (t_rows t) < 2147483648"
  shows "\<exists>d' t'. sqlite_store_trim_cache trim_ok (Some d) (int m) = (0, Some d', [])
    \<and> db_table d' = Some t' \<and> t_rows t' = trimmed m (t_rows t) \<and> t_seq t' = t_seq t"
proof -
  let ?n = "length (t_rows t)"
  have count: "sqlite_store_get_total_count no_fault (Some (d\<lparr>db_table := Some u\<rparr>)) = int (length (t_rows u))"
    if "length (t_rows u) \<le> ?n" for u
    using that assms(4) by (simp add: sqlite_store_get_total_count_def prepared_def no_fault_def sql_count_def column_int_id)
  have d: "d\<lparr>db_table := Some t\<rparr> = d" using assms(1) by (cases d) simp
  show ?thesis
  proof (cases "?n \<le> m")
    case True
    then show ?thesis
      using count [of t] assms(1,3) unfolding d
      by (simp add: sqlite_store_trim_cache_def trim_ok_def trimmed_def)
  next
    case False
    define t1 where "t1 = sql_delete_uploaded (int ?n - int m) t"
    have nat1: "nat (int ?n - int m) = ?n - m" using False by linarith
    have r1: "t_rows t1 = drop_first (\<lambda>r. row_uploaded r = 1) (?n - m) (t_rows t)"
      unfolding t1_def using False assms(2) nat1 by (subst delete_uploaded_rows) simp_all
    have inv1: "table_inv t1" unfolding t1_def by (rule table_inv_deletes [OF assms(2)])
    have s1: "t_seq t1 = t_seq t" by (simp add: t1_def sql_delete_uploaded_def sql_delete_ids_def)
    have l1: "length (t_rows t1) \<le> ?n" by (simp add: r1 length_drop_first)
    have del: "exec_delete no_fault (sql_delete_uploaded (int ?n - int m)) d = (True, d\<lparr>db_table := Some t1\<rparr>)"
      using assms(1) by (simp add: exec_delete_def prepared_def no_fault_def t1_def)
    have c: "sqlite_store_get_total_count no_fault (Some d) = int ?n" using count [of t] unfolding d by simp
    show ?thesis
    proof (cases "length (t_rows t1) \<le> m")
      case True
      then show ?thesis
        using False assms(3) count [OF l1] del c r1 s1
        by (simp add: sqlite_store_trim_cache_def trim_ok_def trimmed_def Let_def)
    next
      case big: False
      define t2 where "t2 = sql_delete_oldest (int (length (t_rows t1)) - int m) t1"
      have nat2: "nat (int (length (t_rows t1)) - int m) = length (t_rows t1) - m" using big by linarith
      have r2: "t_rows t2 = drop (length (t_rows t1) - m) (t_rows t1)"
        unfolding t2_def using big inv1 nat2 by (subst delete_oldest_rows) simp_all
      have s2: "t_seq t2 = t_seq t" using s1 by (simp add: t2_def sql_delete_oldest_def sql_delete_ids_def)
      have del2: "exec_delete no_fault (sql_delete_oldest (int (length (t_rows t1)) - int m)) (d\<lparr>db_table := Some t1\<rparr>)
          = (True, d\<lparr>db_table := Some t2\<rparr>)"
        by (simp add: exec_delete_def prepared_def no_fault_def t2_def)
      show ?thesis
        using False assms(3) big count [OF l1] del del2 c r2 s2 r1
        by (simp add: sqlite_store_trim_cache_def trim_ok_def trimmed_def Let_def)
    qed
  qed
qed

lemma trimmed_length: "0 < m \<Longrightarrow> length (trimmed m rs) = min (length rs) m"
  by (auto simp: trimmed_def Let_def length_drop_first)

lemma trimmed_keeps:
  "length rs - m \<le> length (filter (\<lambda>r. row_uploaded r = 1) rs) \<Longrightarrow>
     filter (\<lambda>r. row_uploaded r \<noteq> 1) (trimmed m rs) = filter (\<lambda>r. row_uploaded r \<noteq> 1) rs"
  by (simp add: trimmed_def Let_def length_drop_first drop_first_keeps)

lemma trimmed_drops_sent:
  assumes "length (filter (\<lambda>r. row_uploaded r = 1) rs) < length rs - m"
  shows "trimmed m rs = drop (length (filter (\<lambda>r. row_uploaded r \<noteq> 1) rs) - m) (filter (\<lambda>r. row_uploaded r \<noteq> 1) rs)"
proof -
  let ?P = "\<lambda>r. row_uploaded r = 1"
  let ?x = "drop_first ?P (length rs - m) rs"
  have "filter ?P ?x = []" using assms by (simp add: drop_first_drops)
  then have "filter (\<lambda>r. \<not> ?P r) ?x = ?x" by (auto simp: filter_empty_conv filter_id_conv)
  then have "?x = filter (\<lambda>r. \<not> ?P r) ?x" by (rule sym)
  also have "\<dots> = filter (\<lambda>r. \<not> ?P r) rs" by (rule drop_first_keeps)
  finally show ?thesis by (simp add: trimmed_def Let_def)
qed



definition sent_row :: "int \<Rightarrow> int \<Rightarrow> row" where
  "sent_row i u = \<lparr>row_id = i, row_device_id = ''gw'', row_timestamp_ms = 1000 * i, row_ph = DFin False 0,
     row_temperature = DFin False 0, row_turbidity = DFin False 0, row_conductivity = DFin False 0,
     row_sensor_status = 0, row_alarm_status = 0, row_sequence = i, row_uploaded = u, row_upload_retry = 0\<rparr>"

definition small_table :: table where
  "small_table = \<lparr>t_rows = [sent_row 1 0, sent_row 2 1, sent_row 3 0], t_seq = 5\<rparr>"

definition small_db :: database where
  "small_db = \<lparr>db_table = Some small_table, db_indexes = [], db_pragmas = []\<rparr>"

lemma small_table_inv: "table_inv small_table"
  by (simp add: table_inv_def small_table_def sent_row_def)



subsection \<open>The drain\<close>

definition row_for :: "int \<Rightarrow> string \<Rightarrow> water_sample \<Rightarrow> row" where
  "row_for i dev s = \<lparr>row_id = i, row_device_id = dev, row_timestamp_ms = timestamp_ms s,
     row_ph = the (real_column (f64_of_f32 (ph s))),
     row_temperature = the (real_column (f64_of_f32 (temperature s))),
     row_turbidity = the (real_column (f64_of_f32 (turbidity s))),
     row_conductivity = the (real_column (f64_of_f32 (conductivity s))),
     row_sensor_status = sint (sensor_status s), row_alarm_status = sint (alarm_status s),
     row_sequence = sint (sequence s), row_uploaded = 0, row_upload_retry = 0\<rparr>"

fun rows_from :: "int \<Rightarrow> string \<Rightarrow> water_sample list \<Rightarrow> row list" where
  "rows_from i dev [] = []"
| "rows_from i dev (s # ss) = row_for i dev s # rows_from (i + 1) dev ss"

lemma sql_insert_eq:
  "\<not> has_nan s \<Longrightarrow> sql_insert dev s t =
     Some (t\<lparr>t_rows := t_rows t @ [row_for (t_seq t + 1) dev s], t_seq := t_seq t + 1\<rparr>)"
  using sql_insert_None [of dev s t] by (auto simp: sql_insert_def row_for_def split: option.splits)

lemma store_sample_works:
  assumes "sql_fault e = Works" and "db_table db = Some t" and "\<not> has_nan s"
  shows "store_sample e s ctx db =
    (ctx\<lparr>st_sample_counter := st_sample_counter ctx + 1, st_write_count := st_write_count ctx + 1\<rparr>,
     db\<lparr>db_table := Some (t\<lparr>t_rows := t_rows t @ [row_for (t_seq t + 1) (st_device_id ctx) s],
                            t_seq := t_seq t + 1\<rparr>)\<rparr>, [])"
  using assms
  by (simp add: store_sample_def sqlite_store_insert_def prepared_def sql_insert_eq Let_def)

lemma store_sample_counts:
  assumes "store_sample e s ctx db = (ctx', db', logs)"
  shows "st_sample_counter ctx' = st_sample_counter ctx + 1
    \<and> st_write_count ctx' + st_write_fail_count ctx' = st_write_count ctx + st_write_fail_count ctx + 1
    \<and> st_device_id ctx' = st_device_id ctx \<and> st_max_cache_count ctx' = st_max_cache_count ctx"
  using assms by (auto simp: store_sample_def Let_def split: prod.splits if_splits)

lemma drain_pop:
  assumes "queue_inv q" and "0 < q_count q"
  shows "\<exists>q1. sample_queue_pop (Some q) (Some zero_sample) 100 [] = Some (0, Some q1, Some (hd (queue_list q)))
    \<and> queue_inv q1 \<and> queue_list q1 = tl (queue_list q) \<and> q_count q1 < q_count q"
proof -
  obtain q1 where p: "pop_commit q = (Some (hd (queue_list q)), q1)"
    using pop_commit_nonempty(1) [OF assms] by (cases "pop_commit q") auto
  have s: "sample_queue_pop (Some q) (Some zero_sample) 100 [] = Some (0, Some q1, Some (hd (queue_list q)))"
    using assms(2) p by (simp add: sample_queue_pop_def)
  show ?thesis
    using pop_commit_nonempty(2,3) [OF assms] pop_count_less [OF s assms(2)] s p by auto
qed

lemma store_drain_empties:
  "queue_inv q \<Longrightarrow> store_drain es n q ctx db = (q', ctx', db', logs) \<Longrightarrow>
     queue_list q' = [] \<and> queue_inv q'
   \<and> st_sample_counter ctx' = st_sample_counter ctx + int (length (queue_list q))
   \<and> st_write_count ctx' + st_write_fail_count ctx'
       = st_write_count ctx + st_write_fail_count ctx + of_nat (length (queue_list q))
   \<and> st_device_id ctx' = st_device_id ctx \<and> st_max_cache_count ctx' = st_max_cache_count ctx"
proof (induction "q_count q" arbitrary: q n ctx db q' ctx' db' logs rule: less_induct)
  case less
  show ?case
  proof (cases "0 < q_count q")
    case False
    then show ?thesis
      using less.prems by (subst (asm) store_drain.simps) (simp add: sample_queue_count_def queue_list_empty)
  next
    case True
    obtain q1 where q1: "sample_queue_pop (Some q) (Some zero_sample) 100 [] = Some (0, Some q1, Some (hd (queue_list q)))"
      "queue_inv q1" "queue_list q1 = tl (queue_list q)" "q_count q1 < q_count q"
      using drain_pop [OF less.prems(1) True] by blast
    obtain ctx1 db1 logs1 where s1: "store_sample (es n) (hd (queue_list q)) ctx db = (ctx1, db1, logs1)"
      by (cases "store_sample (es n) (hd (queue_list q)) ctx db") auto
    obtain ctx2 db2 logs2 where d: "store_drain es (Suc n) q1 ctx1 db1 = (q', ctx2, db2, logs2)"
      and eq: "ctx' = ctx2"
      using less.prems(2) True q1(1) s1
      by (subst (asm) store_drain.simps) (auto simp: sample_queue_count_def split: prod.splits)
    have l: "length (queue_list q) = Suc (length (queue_list q1))"
      using q1(3) queue_list_nonempty [OF True] by (metis length_Cons)
    show ?thesis
      using less.hyps [OF q1(4,2) d] store_sample_counts [OF s1] l eq by simp
  qed
qed

lemma store_drain_stores:
  "queue_inv q \<Longrightarrow> (\<And>k. sql_fault (es k) = Works) \<Longrightarrow> db_table db = Some t \<Longrightarrow>
     list_all (\<lambda>s. \<not> has_nan s) (queue_list q) \<Longrightarrow> store_drain es n q ctx db = (q', ctx', db', logs) \<Longrightarrow>
     logs = [] \<and> st_write_count ctx' = st_write_count ctx + of_nat (length (queue_list q))
   \<and> (\<exists>t'. db_table db' = Some t' \<and>
        t_rows t' = t_rows t @ rows_from (t_seq t + 1) (st_device_id ctx) (queue_list q))"
proof (induction "q_count q" arbitrary: q n ctx db t q' ctx' db' logs rule: less_induct)
  case less
  show ?case
  proof (cases "0 < q_count q")
    case False
    then show ?thesis
      using less.prems by (subst (asm) store_drain.simps) (simp add: sample_queue_count_def queue_list_empty)
  next
    case True
    note ql = queue_list_nonempty [OF True]
    obtain q1 where q1: "sample_queue_pop (Some q) (Some zero_sample) 100 [] = Some (0, Some q1, Some (hd (queue_list q)))"
      "queue_inv q1" "queue_list q1 = tl (queue_list q)" "q_count q1 < q_count q"
      using drain_pop [OF less.prems(1) True] by blast
    have "\<not> has_nan (hd (queue_list q)) \<and> list_all (\<lambda>s. \<not> has_nan s) (tl (queue_list q))"
      using less.prems(4) ql by (metis list.pred_inject(2))
    then have nan: "\<not> has_nan (hd (queue_list q))" "list_all (\<lambda>s. \<not> has_nan s) (queue_list q1)"
      unfolding q1(3) by blast+
    note s1 = store_sample_works [OF less.prems(2) [of n] less.prems(3) nan(1), of ctx]
    let ?ctx1 = "ctx\<lparr>st_sample_counter := st_sample_counter ctx + 1, st_write_count := st_write_count ctx + 1\<rparr>"
    let ?t1 = "t\<lparr>t_rows := t_rows t @ [row_for (t_seq t + 1) (st_device_id ctx) (hd (queue_list q))],
                 t_seq := t_seq t + 1\<rparr>"
    obtain ctx2 db2 logs2 where d: "store_drain es (Suc n) q1 ?ctx1 (db\<lparr>db_table := Some ?t1\<rparr>) = (q', ctx2, db2, logs2)"
      and eq: "ctx' = ctx2" "db' = db2" "logs = logs2"
      using less.prems(5) True q1(1) s1
      by (subst (asm) store_drain.simps) (auto simp: sample_queue_count_def split: prod.splits)
    have "db_table (db\<lparr>db_table := Some ?t1\<rparr>) = Some ?t1" by simp
    note IH = less.hyps [OF q1(4,2) less.prems(2) this nan(2) d]
    have "rows_from (t_seq t + 1) (st_device_id ctx) (queue_list q)
        = row_for (t_seq t + 1) (st_device_id ctx) (hd (queue_list q))
            # rows_from (t_seq t + 1 + 1) (st_device_id ctx) (queue_list q1)"
      unfolding q1(3) by (subst ql) simp
    moreover have "length (queue_list q) = Suc (length (queue_list q1))"
      unfolding q1(3) using ql by (metis length_Cons)
    ultimately show ?thesis using IH eq by (simp del: length_queue_list)
  qed
qed


lemma store_loop_counts:
  "store_loop its ctx db = Some (ctx', db', popped, logs) \<Longrightarrow>
     st_sample_counter ctx' = st_sample_counter ctx + int (length popped)
   \<and> st_write_count ctx' + st_write_fail_count ctx'
       = st_write_count ctx + st_write_fail_count ctx + of_nat (length popped)"
proof (induction its arbitrary: ctx db ctx' db' popped logs)
  case (Cons it its)
  from Cons.prems obtain ctx1 db1 q1 popped1 logs1 popped2 logs2
    where i: "store_iteration_step it ctx db = Some (ctx1, db1, q1, popped1, logs1)"
      and l: "store_loop its ctx1 db1 = Some (ctx', db', popped2, logs2)"
      and p: "popped = popped1 @ popped2"
    by (auto split: option.splits prod.splits)
  have "st_sample_counter ctx1 = st_sample_counter ctx + int (length popped1)
   \<and> st_write_count ctx1 + st_write_fail_count ctx1
       = st_write_count ctx + st_write_fail_count ctx + of_nat (length popped1)"
  proof -
    from i obtain r q smp where pop: "sample_queue_pop (Some (si_queue it)) (Some zero_sample) 500 (si_wakeups it) = Some (r, q, smp)"
      by (auto simp: store_iteration_step_def Let_def split: option.splits)
    show ?thesis
    proof (cases "r = 0")
      case False
      with i pop show ?thesis by (simp add: store_iteration_step_def)
    next
      case True
      obtain c d ls where s: "store_sample (si_insert it) (the smp) ctx (si_others it db) = (c, d, ls)"
        by (cases "store_sample (si_insert it) (the smp) ctx (si_others it db)") auto
      then have "ctx1 = c \<and> popped1 = [the smp]"
        using i pop True by (auto simp: store_iteration_step_def Let_def split: if_splits prod.splits)
      with store_sample_counts [OF s] show ?thesis by simp
    qed
  qed
  with Cons.IH [OF l] show ?case by (simp add: p algebra_simps)
qed simp





end
