(* ===== verification/Uploader.thy ===== *)
theory Uploader
  imports Sqlite_Store Serial_Port
begin

section \<open>The uploader thread (\<^verbatim>\<open>app/src/uploader.c\<close>)\<close>

text \<open>
  The JSON line of a sample, the TCP connection, the query for rows not yet uploaded, and the
  thread: rounds of a batch each, then the drain of what is left. The state is the database, the
  connection with the bytes sent on it, the two counters and the log calls. The outside world is
  a stream of answers: \<open>es n\<close> belongs to the \<open>n\<close>-th row step and the counter is part of the state.
\<close>

subsection \<open>The line sent for a sample\<close>

definition quoted :: "string \<Rightarrow> string" where
  "quoted s = [CHR 0x22] @ s @ [CHR 0x22]"

definition json_key :: "string \<Rightarrow> string" where
  "json_key k = quoted k @ '':''"

text \<open>\<open>None\<close> where the conversion of the conductivity to \<^verbatim>\<open>int\<close> is undefined.\<close>
definition json_line :: "string \<Rightarrow> water_sample \<Rightarrow> string option" where
  "json_line device_id s =
     (case f32_to_int (conductivity s) of None \<Rightarrow> None
      | Some c \<Rightarrow> Some (''{'' @ json_key ''device_id'' @ quoted device_id @
          '','' @ json_key ''timestamp_ms'' @ fmt_int (timestamp_ms s) @
          '','' @ json_key ''ph'' @ fmt_fixed 2 (ph s) @
          '','' @ json_key ''temperature'' @ fmt_fixed 2 (temperature s) @
          '','' @ json_key ''turbidity'' @ fmt_fixed 2 (turbidity s) @
          '','' @ json_key ''conductivity'' @ fmt_int c @
          '','' @ json_key ''sensor_status'' @ fmt_nat (unat (sensor_status s)) @
          '','' @ json_key ''alarm_status'' @ fmt_nat (unat (alarm_status s)) @
          '','' @ json_key ''sequence'' @ fmt_nat (unat (sequence s)) @ ''}'' @ [CHR 0x0A]))"

definition uploader_build_json :: "string \<Rightarrow> water_sample \<Rightarrow> nat \<Rightarrow> (string \<times> int) option" where
  "uploader_build_json device_id s buf_size = map_option (snprintf buf_size) (json_line device_id s)"

subsection \<open>The connection\<close>

text \<open>
  What \<^verbatim>\<open>socket\<close> returns, whether \<^verbatim>\<open>inet_pton\<close> and \<^verbatim>\<open>connect\<close> succeed, and the text of \<^verbatim>\<open>strerror\<close>.
\<close>
record connect_env =
  ce_socket :: int
  ce_inet_ok :: bool
  ce_connect_ok :: bool
  ce_strerror :: string

text \<open>The result with the list of open sockets.\<close>
definition uploader_connect ::
    "connect_env \<Rightarrow> string \<Rightarrow> int \<Rightarrow> int list \<Rightarrow> int \<times> int list \<times> log_msg list" where
  "uploader_connect e host port socks =
     (if ce_socket e < 0
      then (-1, socks, [(LOG_LEVEL_WARN, ''uploader: socket() failed: '' @ ce_strerror e)])
      else
        (let opened = ce_socket e # socks
         in if \<not> ce_inet_ok e
            then (-1, remove1 (ce_socket e) opened,
                  [(LOG_LEVEL_WARN, ''uploader: inet_pton() failed for '' @ host)])
            else if \<not> ce_connect_ok e
            then (-1, remove1 (ce_socket e) opened,
                  [(LOG_LEVEL_WARN, ''uploader: connect() failed: '' @ ce_strerror e)])
            else (ce_socket e, opened,
                  [(LOG_LEVEL_INFO, ''uploader: connected to '' @ host @ '':'' @ fmt_int port)])))"

text \<open>
  The send loop on the bytes still to go; \<open>None\<close> while another \<^verbatim>\<open>send\<close> is needed. Unlike the
  serial write it gives up on an interrupted call.
\<close>
fun send_loop :: "string \<Rightarrow> sys_ret list \<Rightarrow> (int \<times> string) option" where
  "send_loop data outs =
     (if data = [] then Some (0, [])
      else (case outs of [] \<Rightarrow> None
            | Ret n # rs \<Rightarrow>
                if n = 0 then Some (-1, [])
                else (case send_loop (drop n data) rs of None \<Rightarrow> None
                      | Some (r, sent) \<Rightarrow> Some (r, take n data @ sent))
            | _ # rs \<Rightarrow> Some (-1, [])))"

declare send_loop.simps [simp del]

definition uploader_send_line ::
    "string \<Rightarrow> sys_ret list \<Rightarrow> string \<Rightarrow> (int \<times> string \<times> log_msg list) option" where
  "uploader_send_line data outs strerror =
     (case send_loop data outs of None \<Rightarrow> None
      | Some (r, sent) \<Rightarrow>
          Some (r, sent, if r = 0 then [] else [(LOG_LEVEL_WARN, ''uploader: send() failed: '' @ strerror)]))"

subsection \<open>The query\<close>

text \<open>\<^verbatim>\<open>SELECT ... WHERE uploaded = 0 AND upload_retry < ? ORDER BY id ASC LIMIT ?\<close>.\<close>
definition sql_unuploaded :: "int \<Rightarrow> int \<Rightarrow> table \<Rightarrow> row list" where
  "sql_unuploaded retry_max batch_max t =
     sql_limit batch_max (filter (\<lambda>r. row_uploaded r = 0 \<and> row_upload_retry r < retry_max) (t_rows t))"

text \<open>The cursor: the rows the statement will still deliver.\<close>
definition uploader_query_unuploaded ::
    "sql_env \<Rightarrow> database \<Rightarrow> int \<Rightarrow> int \<Rightarrow> int \<times> row list \<times> log_msg list" where
  "uploader_query_unuploaded e db batch_max retry_max =
     (case prepared e db of
        None \<Rightarrow> (-1, [], [(LOG_LEVEL_ERROR, ''uploader: prepare query failed: '' @ sql_errmsg e)])
      | Some t \<Rightarrow> (0, sql_unuploaded retry_max batch_max t, []))"

definition row_sample :: "row \<Rightarrow> water_sample" where
  "row_sample r = \<lparr>timestamp_ms = row_timestamp_ms r, ph = f32_of_f64 (row_ph r),
     temperature = f32_of_f64 (row_temperature r), turbidity = f32_of_f64 (row_turbidity r),
     conductivity = f32_of_f64 (row_conductivity r),
     sensor_status = word_of_int (column_int (row_sensor_status r)),
     alarm_status = word_of_int (column_int (row_alarm_status r)),
     sequence = word_of_int (column_int (row_sequence r))\<rparr>"

text \<open>Return code, id and sample (for code 1), and the cursor behind the row.\<close>
definition uploader_read_row ::
    "bool \<Rightarrow> row list \<Rightarrow> int \<times> (int \<times> water_sample) option \<times> row list" where
  "uploader_read_row step_ok rows =
     (if \<not> step_ok then (-1, None, rows)
      else (case rows of [] \<Rightarrow> (0, None, [])
            | r # rs \<Rightarrow> (1, Some (column_int (row_id r), row_sample r), rs)))"

subsection \<open>The state of the thread\<close>

record uploader_ctx =
  up_device_id :: string
  up_server_host :: string
  up_server_port :: int
  up_period_ms :: int
  up_batch_max :: int
  up_retry_max :: int

text \<open>\<open>up_stream\<close> is what went out on the latest connection, \<open>up_past\<close> on the ones before.\<close>
record up_state =
  up_db :: database
  up_sock :: int
  up_connected :: bool
  up_open :: "int list"
  up_stream :: string
  up_past :: "string list"
  up_uploaded :: ulong
  up_failed :: ulong
  up_logs :: "log_msg list"
  up_tick :: nat

text \<open>What one row step meets: the shutdown flag, the step, the sends, and the update after.\<close>
record row_env =
  re_shutdown :: bool
  re_step_ok :: bool
  re_send :: "sys_ret list"
  re_update :: sql_env
  re_text :: string

definition up_log :: "log_msg \<Rightarrow> up_state \<Rightarrow> up_state" where
  "up_log m st = st\<lparr>up_logs := up_logs st @ [m]\<rparr>"

definition next_tick :: "up_state \<Rightarrow> up_state" where
  "next_tick st = st\<lparr>up_tick := up_tick st + 1\<rparr>"

text \<open>\<^verbatim>\<open>sqlite_store_mark_uploaded\<close> and \<^verbatim>\<open>sqlite_store_inc_retry\<close>, whose results are ignored.\<close>

definition after_sent :: "sql_env \<Rightarrow> int \<Rightarrow> up_state \<Rightarrow> up_state" where
  "after_sent e i st = st\<lparr>up_db := the (snd (sqlite_store_mark_uploaded e (Some (up_db st)) i)),
     up_uploaded := up_uploaded st + 1\<rparr>"

definition after_failed :: "sql_env \<Rightarrow> int \<Rightarrow> up_state \<Rightarrow> up_state" where
  "after_failed e i st = st\<lparr>up_db := the (snd (sqlite_store_inc_retry e (Some (up_db st)) i)),
     up_failed := up_failed st + 1\<rparr>"

lemma read_row_shorter:
  "(rc, Some x, rest) = uploader_read_row ok rows \<Longrightarrow> length rest < length rows"
  by (auto simp: uploader_read_row_def split: if_splits list.splits)

subsection \<open>The rows of one batch\<close>

text \<open>The inner loop of the main phase: whether there was data, and the state; \<open>None\<close> while blocked.\<close>
function upload_rows ::
    "(nat \<Rightarrow> row_env) \<Rightarrow> string \<Rightarrow> row list \<Rightarrow> bool \<Rightarrow> up_state \<Rightarrow> (bool \<times> up_state) option" where
  "upload_rows es dev rows has_data st0 =
     (let e = es (up_tick st0); st = next_tick st0
      in if re_shutdown e then Some (has_data, st)
         else
           (case uploader_read_row (re_step_ok e) rows of
              (rc, None, _) \<Rightarrow>
                if rc = 0 then Some (has_data, st)
                else Some (has_data, up_log (LOG_LEVEL_ERROR, ''uploader: read row failed: '' @ re_text e) st)
            | (rc, Some (sample_id, sample), rest) \<Rightarrow>
                (case uploader_build_json dev sample 512 of None \<Rightarrow> None
                 | Some (json, len) \<Rightarrow>
                     if len < 0 \<or> len \<ge> 512
                     then upload_rows es dev rest True (up_log (LOG_LEVEL_WARN, ''uploader: json build overflow'') st)
                     else
                       (case uploader_send_line json (re_send e) (re_text e) of None \<Rightarrow> None
                        | Some (r, sent, logs) \<Rightarrow>
                            (let st1 = st\<lparr>up_stream := up_stream st @ sent, up_logs := up_logs st @ logs\<rparr>
                             in if r \<noteq> 0
                                then
                                  (let st2 = after_failed (re_update e) sample_id st1;
                                       st3 = st2\<lparr>up_connected := False, up_open := remove1 (up_sock st2) (up_open st2),
                                                 up_sock := -1\<rparr>
                                   in Some (True, up_log (LOG_LEVEL_WARN, ''uploader: connection lost, will reconnect'') st3))
                                else upload_rows es dev rest True (after_sent (re_update e) sample_id st1))))))"
  by pat_completeness auto
termination
  by (relation "measure (\<lambda>(es, dev, rows, has_data, st). length rows)") (auto dest: read_row_shorter)

declare upload_rows.simps [simp del]

text \<open>The inner loop of the drain: no look at the flag, and the connection stays open.\<close>
function drain_rows ::
    "(nat \<Rightarrow> row_env) \<Rightarrow> string \<Rightarrow> row list \<Rightarrow> bool \<Rightarrow> up_state \<Rightarrow> (bool \<times> up_state) option" where
  "drain_rows es dev rows drained st0 =
     (let e = es (up_tick st0); st = next_tick st0
      in (case uploader_read_row (re_step_ok e) rows of
            (rc, None, _) \<Rightarrow> Some (drained, st)
          | (rc, Some (sample_id, sample), rest) \<Rightarrow>
              (case uploader_build_json dev sample 512 of None \<Rightarrow> None
               | Some (json, len) \<Rightarrow>
                   if len < 0 \<or> len \<ge> 512 then drain_rows es dev rest True st
                   else
                     (case uploader_send_line json (re_send e) (re_text e) of None \<Rightarrow> None
                      | Some (r, sent, logs) \<Rightarrow>
                          (let st1 = st\<lparr>up_stream := up_stream st @ sent, up_logs := up_logs st @ logs\<rparr>
                           in if r \<noteq> 0
                              then Some (True, up_log (LOG_LEVEL_WARN, ''uploader: send failed during drain'')
                                                 (after_failed (re_update e) sample_id st1))
                              else drain_rows es dev rest True (after_sent (re_update e) sample_id st1))))))"
  by pat_completeness auto
termination
  by (relation "measure (\<lambda>(es, dev, rows, drained, st). length rows)") (auto dest: read_row_shorter)

declare drain_rows.simps [simp del]

subsection \<open>Rounds, drain and thread\<close>

record round_env =
  ro_connect :: connect_env
  ro_query :: sql_env
  ro_others :: "database \<Rightarrow> database"

text \<open>One pass of the outer loop; the sleeps at its \<^verbatim>\<open>continue\<close>s change no state.\<close>
definition upload_round ::
    "uploader_ctx \<Rightarrow> (nat \<Rightarrow> row_env) \<Rightarrow> round_env \<Rightarrow> up_state \<Rightarrow> up_state option" where
  "upload_round ctx es e st0 =
     (let st = st0\<lparr>up_db := ro_others e (up_db st0)\<rparr>;
          st1 = (if up_connected st then st
                 else (case uploader_connect (ro_connect e) (up_server_host ctx) (up_server_port ctx) (up_open st) of
                         (s, socks, logs) \<Rightarrow>
                           (let st' = st\<lparr>up_sock := s, up_open := socks, up_logs := up_logs st @ logs\<rparr>
                            in if s < 0 then st'
                               else st'\<lparr>up_connected := True, up_past := up_past st' @ [up_stream st'],
                                        up_stream := ''''\<rparr>)))
      in if \<not> up_connected st1 then Some st1
         else
           (case uploader_query_unuploaded (ro_query e) (up_db st1) (up_batch_max ctx) (up_retry_max ctx) of
              (rc, rows, logs) \<Rightarrow>
                if rc \<noteq> 0 then Some (st1\<lparr>up_logs := up_logs st1 @ logs\<rparr>)
                else map_option snd (upload_rows es (up_device_id ctx) rows False st1)))"

fun upload_rounds ::
    "uploader_ctx \<Rightarrow> (nat \<Rightarrow> row_env) \<Rightarrow> round_env list \<Rightarrow> up_state \<Rightarrow> up_state option" where
  "upload_rounds ctx es [] st = Some st"
| "upload_rounds ctx es (e # rs) st =
     (case upload_round ctx es e st of None \<Rightarrow> None | Some st1 \<Rightarrow> upload_rounds ctx es rs st1)"

text \<open>
  The \<^verbatim>\<open>for (;;)\<close> of the drain; \<open>qs n\<close> answers the \<open>n\<close>-th query. The fuel bounds the number of
  rounds: \<open>None\<close> when it is used up (or a send is still blocked).
\<close>
fun drain_loop ::
    "uploader_ctx \<Rightarrow> (nat \<Rightarrow> row_env) \<Rightarrow> (nat \<Rightarrow> sql_env) \<Rightarrow> nat \<Rightarrow> nat \<Rightarrow> up_state \<Rightarrow> up_state option" where
  "drain_loop ctx es qs n 0 st = None"
| "drain_loop ctx es qs n (Suc fuel) st =
     (case uploader_query_unuploaded (qs n) (up_db st) (up_batch_max ctx) (up_retry_max ctx) of
        (rc, rows, logs) \<Rightarrow>
          (let st1 = st\<lparr>up_logs := up_logs st @ logs\<rparr>
           in if rc \<noteq> 0 then Some st1
              else (case drain_rows es (up_device_id ctx) rows False st1 of None \<Rightarrow> None
                    | Some (drained, st2) \<Rightarrow>
                        if \<not> drained then Some st2 else drain_loop ctx es qs (n + 1) fuel st2)))"

definition up_start :: "database \<Rightarrow> up_state" where
  "up_start db = \<lparr>up_db = db, up_sock = -1, up_connected = False, up_open = [], up_stream = '''',
     up_past = [], up_uploaded = 0, up_failed = 0, up_logs = [], up_tick = 0\<rparr>"

definition uploader_thread ::
    "uploader_ctx \<Rightarrow> (nat \<Rightarrow> row_env) \<Rightarrow> round_env list \<Rightarrow> (nat \<Rightarrow> sql_env) \<Rightarrow> nat \<Rightarrow> database option
      \<Rightarrow> up_state option" where
  "uploader_thread ctx es rounds qs fuel db =
     (case db of None \<Rightarrow> Some (up_log (LOG_LEVEL_ERROR, ''uploader: invalid context'')
                    (up_start \<lparr>db_table = None, db_indexes = [], db_pragmas = []\<rparr>))
      | Some d \<Rightarrow>
          (let st = up_log (LOG_LEVEL_INFO, ''upload thread started (host='' @ up_server_host ctx @ '':'' @
                 fmt_int (up_server_port ctx) @ '' period='' @ fmt_int (up_period_ms ctx) @ '' batch='' @
                 fmt_int (up_batch_max ctx) @ '' retry='' @ fmt_int (up_retry_max ctx) @ '')'') (up_start d)
           in (case upload_rounds ctx es rounds st of None \<Rightarrow> None
               | Some st1 \<Rightarrow>
                   (case (if up_connected st1 \<and> up_sock st1 \<ge> 0
                          then drain_loop ctx es qs 0 fuel
                                 (up_log (LOG_LEVEL_INFO, ''uploader: draining remaining unuploaded records...'') st1)
                          else Some st1) of
                      None \<Rightarrow> None
                    | Some st2 \<Rightarrow>
                        (let st3 = (if up_connected st2 \<and> up_sock st2 \<ge> 0
                                    then st2\<lparr>up_open := remove1 (up_sock st2) (up_open st2)\<rparr> else st2)
                         in Some (up_log (LOG_LEVEL_INFO, ''upload thread stopped (uploaded='' @
                               fmt_nat (unat (up_uploaded st3)) @ '' failed='' @ fmt_nat (unat (up_failed st3)) @ '')'')
                               st3))))))"


subsection \<open>The line always fits\<close>

lemma length_fmt_pad: "n < 10 ^ w \<Longrightarrow> 0 < w \<Longrightarrow> length (fmt_pad w n) = w"
  using length_fmt_nat_le [of n w] by (simp add: fmt_pad_def)

lemma length_fmt_fixed: "is_f32 x \<Longrightarrow> length (fmt_fixed 2 x) \<le> 43"
proof (cases x)
  case (Fin s k)
  assume "is_f32 x"
  then have k: "k < 2 ^ 277" by (simp add: Fin)
  let ?h = "rne_div (k * 10 ^ 2) (2 ^ 149)"
  have "?h \<le> 100 * 2 ^ 128"
  proof (rule rne_div_le)
    have "k * 10 ^ 2 \<le> 2 ^ 277 * 10 ^ 2" using k by simp
    then show "k * 10 ^ 2 \<le> 100 * 2 ^ 128 * 2 ^ 149" by simp
  qed simp
  then have "?h div 10 ^ 2 \<le> (100 * 2 ^ 128) div 10 ^ 2" by (rule div_le_mono)
  also have "\<dots> < (10 :: nat) ^ 39" by simp
  finally have "length (fmt_nat (?h div 10 ^ 2)) \<le> 39" by (rule length_fmt_nat_le) simp
  moreover have "length (fmt_pad 2 (?h mod 10 ^ 2)) = 2" by (rule length_fmt_pad) simp_all
  ultimately have "length (fmt_scaled 2 ?h) \<le> 42"
    unfolding fmt_scaled_def length_append by (simp only: list.size)
  then show ?thesis unfolding Fin fmt_fixed.simps length_append by (cases s) simp_all
qed simp_all

lemma length_fmt_u32: "length (fmt_nat (unat (w :: u32))) \<le> 10"
proof (rule length_fmt_nat_le)
  have "unat w < 2 ^ 32" using unsigned_less [of w, where 'a = nat] by simp
  then show "unat w < 10 ^ 10" by simp
qed simp

definition is_int64 :: "int \<Rightarrow> bool" where
  "is_int64 i \<longleftrightarrow> - (2 ^ 63) \<le> i \<and> i < 2 ^ 63"

lemma length_fmt_int64: "is_int64 i \<Longrightarrow> length (fmt_int i) \<le> 20"
  using length_fmt_nat_le [of "nat (- i)" 19] length_fmt_nat_le [of "nat i" 19]
  by (auto simp: fmt_int_def is_int64_def nat_less_iff)

lemma length_fmt_cint: "is_c_int i \<Longrightarrow> length (fmt_int i) \<le> 11"
  using length_fmt_nat_le [of "nat (- i)" 10] length_fmt_nat_le [of "nat i" 10]
  by (auto simp: fmt_int_def is_c_int_def nat_less_iff)

lemma f32_to_int_range: "f32_to_int x = Some c \<Longrightarrow> is_c_int c"
  by (cases x) (auto simp: Let_def split: if_splits)

definition sample_sendable :: "water_sample \<Rightarrow> bool" where
  "sample_sendable s \<longleftrightarrow> sample_ok s \<and> is_int64 (timestamp_ms s) \<and> f32_to_int (conductivity s) \<noteq> None"

lemma json_line_length:
  assumes "length dev < 64" and "sample_sendable s"
  shows "\<exists>j. json_line dev s = Some j \<and> length j < 400 \<and> j \<noteq> []"
proof -
  obtain c where c: "f32_to_int (conductivity s) = Some c" using assms(2) by (auto simp: sample_sendable_def)
  have l: "length (fmt_fixed 2 (ph s)) \<le> 43" "length (fmt_fixed 2 (temperature s)) \<le> 43"
    "length (fmt_fixed 2 (turbidity s)) \<le> 43" "length (fmt_int (timestamp_ms s)) \<le> 20"
    "length (fmt_int c) \<le> 11"
    using assms(2) length_fmt_fixed length_fmt_int64 length_fmt_cint [OF f32_to_int_range [OF c]]
    by (simp_all add: sample_sendable_def sample_ok_def del: fmt_fixed.simps)
  note u = length_fmt_u32 [of "sensor_status s"] length_fmt_u32 [of "alarm_status s"] length_fmt_u32 [of "sequence s"]
  show ?thesis
    using assms(1) l u by (simp add: json_line_def c json_key_def quoted_def)
qed

lemma build_json_fits:
  assumes "length dev < 64" and "sample_sendable s"
  shows "\<exists>j. uploader_build_json dev s 512 = Some (j, int (length j)) \<and> json_line dev s = Some j \<and> length j < 512"
  using json_line_length [OF assms] by (auto simp: uploader_build_json_def snprintf_def)

text \<open>
  The JSON line of any sample, for any device id the configuration can hold (at
  most 63 characters), fits the 512-byte buffer with room to spare: \<^verbatim>\<open>snprintf\<close> never cuts it, so
  the overflow branches of the thread are never taken and no record is skipped.
\<close>
theorem uploader_json_fits:
  assumes "length dev < 64" and "sample_ok s" and "is_int64 (timestamp_ms s)"
    and "f32_to_int (conductivity s) \<noteq> None"
  shows "\<exists>j. uploader_build_json dev s 512 = Some (j, int (length j)) \<and> json_line dev s = Some j
    \<and> length j < 512"
  using assms by (intro build_json_fits) (simp_all add: sample_sendable_def)

lemma zero_sample_sendable: "sample_sendable zero_sample"
  by (simp add: sample_sendable_def zero_sample_def sample_ok_def is_int64_def is_c_int_def Let_def)

theorem uploader_json_fits_witness:
  "\<exists>j. uploader_build_json ''water_gateway_001'' zero_sample 512 = Some (j, int (length j)) \<and> length j < 512"
  using uploader_json_fits [of "''water_gateway_001''" zero_sample] zero_sample_sendable
  by (auto simp: sample_sendable_def)

subsection \<open>What is stored is what is sent\<close>

fun neg_zero :: "f32 \<Rightarrow> bool" where
  "neg_zero (Fin s k) = (s \<and> k = 0)"
| "neg_zero _ = False"

lemma real_column_id:
  "\<not> f32_is_nan x \<Longrightarrow> \<not> neg_zero x \<Longrightarrow> real_column (f64_of_f32 x) = Some (f64_of_f32 x)"
  by (cases x) auto

lemma column_word: "word_of_int (column_int (sint (w :: u32))) = w"
  by (simp add: column_int_def)

lemma row_sample_row_for:
  assumes "sample_ok s" and "\<not> has_nan s"
    and "\<not> neg_zero (ph s)" "\<not> neg_zero (temperature s)" "\<not> neg_zero (turbidity s)" "\<not> neg_zero (conductivity s)"
  shows "row_sample (row_for i dev s) = s"
  using assms
  by (simp add: row_sample_def row_for_def has_nan_def real_column_id f32_of_f64_of_f32 column_word sample_ok_def)

text \<open>
  Property C25. Round trip through the database: a sample that was inserted is read back by the
  uploader exactly, every field: the measured values through the double-precision columns and
  back, the status words and the sequence through signed columns and back. (The two exceptions
  are values a decoded or generated sample never has: a NaN is refused at the insertion, a
  negative zero loses its sign.)
\<close>
theorem stored_sample_roundtrip:
  assumes "sql_insert dev s t = Some t'" and "sample_ok s"
    and "\<not> neg_zero (ph s)" "\<not> neg_zero (temperature s)" "\<not> neg_zero (turbidity s)" "\<not> neg_zero (conductivity s)"
  shows "uploader_read_row True [last (t_rows t')] = (1, Some (column_int (t_seq t + 1), s), [])"
proof -
  have n: "\<not> has_nan s" using assms(1) sql_insert_None [of dev s t] by auto
  have "last (t_rows t') = row_for (t_seq t + 1) dev s" using assms(1) n by (auto simp: sql_insert_eq)
  moreover have "row_id (row_for (t_seq t + 1) dev s) = t_seq t + 1" by (simp add: row_for_def)
  ultimately show ?thesis
    using row_sample_row_for [OF assms(2) n assms(3-6)] by (simp add: uploader_read_row_def)
qed

theorem stored_sample_roundtrip_witness:
  "\<exists>t'. sql_insert ''gw'' (mk_sample 4000000000) empty_table = Some t'
     \<and> uploader_read_row True [last (t_rows t')] = (1, Some (column_int 1, mk_sample 4000000000), [])"
proof -
  have "\<not> has_nan (mk_sample 4000000000)" by (simp add: has_nan_def mk_sample_def zero_sample_def)
  then obtain t' where t': "sql_insert ''gw'' (mk_sample 4000000000) empty_table = Some t'"
    using sql_insert_eq by blast
  have "sample_ok (mk_sample 4000000000)" by (simp add: sample_ok_def mk_sample_def zero_sample_def)
  from stored_sample_roundtrip [OF t' this] t' show ?thesis
    by (simp add: mk_sample_def zero_sample_def empty_table_def)
qed


subsection \<open>Sending\<close>

lemma send_loop_result:
  "send_loop data outs = Some (r, sent) \<Longrightarrow> prefix sent data \<and> (r = 0 \<longleftrightarrow> sent = data) \<and> (r = 0 \<or> r = -1)"
proof (induction data outs arbitrary: r sent rule: send_loop.induct)
  case (1 data outs)
  show ?case
  proof (cases "data = []")
    case True
    with "1.prems" show ?thesis by (simp add: send_loop.simps)
  next
    case False
    then obtain x rs where outs: "outs = x # rs"
      using "1.prems" by (subst (asm) send_loop.simps) (auto split: list.splits)
    show ?thesis
    proof (cases "\<exists>n. x = Ret n \<and> n \<noteq> 0")
      case True
      then obtain n where x: "x = Ret n" "n \<noteq> 0" by blast
      obtain sent' where s: "send_loop (drop n data) rs = Some (r, sent')" "sent = take n data @ sent'"
        using "1.prems" False x outs by (subst (asm) send_loop.simps) (auto split: option.splits)
      have "prefix sent' (drop n data) \<and> (r = 0 \<longleftrightarrow> sent' = drop n data) \<and> (r = 0 \<or> r = -1)"
        using "1.IH" [OF False outs] x s(1) by blast
      moreover have "prefix (take n data @ sent') (take n data @ drop n data)
          \<longleftrightarrow> prefix sent' (drop n data)" by (simp only: same_prefix_prefix)
      moreover have "take n data @ sent' = data \<longleftrightarrow> sent' = drop n data"
        using append_take_drop_id [of n data] by (metis same_append_eq)
      ultimately show ?thesis unfolding s(2) append_take_drop_id by blast
    next
      case other: False
      then have "r = -1 \<and> sent = []"
        using "1.prems" False outs by (subst (asm) send_loop.simps) (cases x; auto)
      with False show ?thesis by auto
    qed
  qed
qed

text \<open>The uploader's connection is a byte sink like the serial port.\<close>

interpretation line: byte_sink send_loop "\<lambda>data r. r = 0"
  by unfold_locales (auto dest: send_loop_result)

text \<open>
  Several lines sent one after the other on a connection, up to the first failure,
  however the kernel cuts them: the bytes that went out are the first lines complete and in
  order, followed by at most a prefix of the next one, and by nothing if none failed.
\<close>
lemma uploader_lines_in_order:
  assumes "line.send_seq ms = (k, stream)"
  shows "\<exists>part. stream = concat (map fst (take k ms)) @ part
    \<and> (if k < length ms then prefix part (fst (ms ! k)) else part = [])"
  using assms by (rule line.send_seq_stream)

definition line_of :: "string \<Rightarrow> row \<Rightarrow> string" where
  "line_of dev r = the (json_line dev (row_sample r))"

definition rows_sendable :: "row list \<Rightarrow> bool" where
  "rows_sendable rows \<longleftrightarrow> list_all (\<lambda>r. sample_sendable (row_sample r)) rows"

lemma build_row:
  assumes "length dev < 64" and "sample_sendable (row_sample r)"
  shows "\<exists>n. uploader_build_json dev (row_sample r) 512 = Some (line_of dev r, n) \<and> \<not> (n < 0 \<or> 512 \<le> n)
    \<and> line_of dev r \<noteq> []"
  using build_json_fits [OF assms] json_line_length [OF assms] by (auto simp: line_of_def)

text \<open>The ids marked as uploaded.\<close>
definition uploaded_ids :: "database \<Rightarrow> int set" where
  "uploaded_ids d = (case db_table d of None \<Rightarrow> {} | Some t \<Rightarrow> set (map row_id (filter (\<lambda>r. row_uploaded r \<noteq> 0) (t_rows t))))"

lemma uploaded_map:
  assumes "\<And>r. row_id (g r) = row_id r" and "\<And>r. row_uploaded (g r) = row_uploaded r"
  shows "map row_id (filter (\<lambda>r. row_uploaded r \<noteq> 0) (map g rs)) = map row_id (filter (\<lambda>r. row_uploaded r \<noteq> 0) rs)"
  using assms by (simp add: filter_map comp_def)

lemma uploaded_after_sent: "uploaded_ids (up_db (after_sent e i st)) \<subseteq> insert i (uploaded_ids (up_db st))"
  by (cases "db_table (up_db st)")
    (auto simp: after_sent_def sqlite_store_mark_uploaded_def prepared_def uploaded_ids_def sql_update_def
      split: if_splits)

lemma uploaded_after_failed: "uploaded_ids (up_db (after_failed e i st)) = uploaded_ids (up_db st)"
  by (cases "db_table (up_db st)")
    (simp_all add: after_failed_def sqlite_store_inc_retry_def prepared_def uploaded_ids_def sql_update_def
      uploaded_map del: set_map map_map)

text \<open>What a batch has done when it ends: the lines of its first \<open>k\<close> rows, and a part of the next.\<close>
definition batch_done :: "string \<Rightarrow> row list \<Rightarrow> nat \<Rightarrow> string \<Rightarrow> up_state \<Rightarrow> up_state \<Rightarrow> bool" where
  "batch_done dev rows k part st st' \<longleftrightarrow> k \<le> length rows
     \<and> up_stream st' = up_stream st @ concat (map (line_of dev) (take k rows)) @ part
     \<and> (part \<noteq> [] \<longrightarrow> k < length rows \<and> strict_prefix part (line_of dev (rows ! k)))
     \<and> up_uploaded st' = up_uploaded st + of_nat k
     \<and> uploaded_ids (up_db st') \<subseteq> uploaded_ids (up_db st) \<union> (\<lambda>r. column_int (row_id r)) ` set (take k rows)"

lemma batch_done_0:
  "up_stream st' = up_stream st \<Longrightarrow> up_uploaded st' = up_uploaded st \<Longrightarrow> up_db st' = up_db st \<Longrightarrow>
     batch_done dev rows 0 [] st st'"
  by (simp add: batch_done_def)

lemma batch_done_Suc:
  assumes "batch_done dev rows k part st1 st'" and "up_stream st1 = up_stream st @ line_of dev r"
    and "up_uploaded st1 = up_uploaded st + 1"
    and "uploaded_ids (up_db st1) \<subseteq> insert (column_int (row_id r)) (uploaded_ids (up_db st))"
  shows "batch_done dev (r # rows) (Suc k) part st st'"
  using assms by (auto simp: batch_done_def)

lemma batch_done_fail:
  assumes "up_stream st' = up_stream st @ part" and "strict_prefix part (line_of dev r)"
    and "up_uploaded st' = up_uploaded st" and "uploaded_ids (up_db st') = uploaded_ids (up_db st)"
  shows "batch_done dev (r # rows) 0 part st st'"
  using assms by (simp add: batch_done_def)

lemma up_state_frames [simp]:
  "up_stream (next_tick st) = up_stream st" "up_uploaded (next_tick st) = up_uploaded st"
  "up_db (next_tick st) = up_db st" "up_stream (up_log m st) = up_stream st"
  "up_uploaded (up_log m st) = up_uploaded st" "up_db (up_log m st) = up_db st"
  "up_stream (after_sent e i st) = up_stream st" "up_uploaded (after_sent e i st) = up_uploaded st + 1"
  "up_stream (after_failed e i st) = up_stream st" "up_uploaded (after_failed e i st) = up_uploaded st"
  "up_tick (next_tick st) = up_tick st + 1" "up_tick (up_log m st) = up_tick st"
  "up_tick (after_sent e i st) = up_tick st" "up_tick (after_failed e i st) = up_tick st"
  by (simp_all add: next_tick_def up_log_def after_sent_def after_failed_def)


lemma upload_rows_done:
  "upload_rows es dev rows d0 st = Some (d1, st') \<Longrightarrow> length dev < 64 \<Longrightarrow> rows_sendable rows \<Longrightarrow>
     \<exists>k part. batch_done dev rows k part st st'"
proof (induction "length rows" arbitrary: rows d0 st rule: less_induct)
  case less
  let ?e = "es (up_tick st)"
  show ?case
  proof (cases "re_shutdown ?e \<or> \<not> re_step_ok ?e \<or> rows = []")
    case True
    then have "up_stream st' = up_stream st \<and> up_uploaded st' = up_uploaded st \<and> up_db st' = up_db st"
      using less.prems(1)
      by (subst (asm) upload_rows.simps) (auto simp: uploader_read_row_def Let_def split: if_splits)
    then show ?thesis using batch_done_0 by blast
  next
    case False
    then obtain r rs where rows: "rows = r # rs" by (cases rows) auto
    have rd: "uploader_read_row (re_step_ok ?e) rows = (1, Some (column_int (row_id r), row_sample r), rs)"
      using False by (simp add: uploader_read_row_def rows)
    have sr: "sample_sendable (row_sample r)" "rows_sendable rs"
      using less.prems(3) by (simp_all add: rows rows_sendable_def)
    obtain n where b: "uploader_build_json dev (row_sample r) 512 = Some (line_of dev r, n)" "\<not> (n < 0 \<or> 512 \<le> n)"
      using build_row [OF less.prems(2) sr(1)] by blast
    obtain x where "uploader_send_line (line_of dev r) (re_send ?e) (re_text ?e) = Some x"
      using less.prems(1) False rd b
      by (subst (asm) upload_rows.simps) (auto simp: Let_def split: option.splits)
    then obtain rc sent logs where sl: "uploader_send_line (line_of dev r) (re_send ?e) (re_text ?e) = Some (rc, sent, logs)"
      by (cases x) auto
    then have lp: "send_loop (line_of dev r) (re_send ?e) = Some (rc, sent)"
      by (auto simp: uploader_send_line_def split: option.splits)
    let ?st1 = "(next_tick st)\<lparr>up_stream := up_stream (next_tick st) @ sent, up_logs := up_logs (next_tick st) @ logs\<rparr>"
    show ?thesis
    proof (cases "rc = 0")
      case True
      have sent: "sent = line_of dev r" using send_loop_result [OF lp] True by blast
      have u: "upload_rows es dev rs True (after_sent (re_update ?e) (column_int (row_id r)) ?st1) = Some (d1, st')"
        using less.prems(1) False rd b sl True by (subst (asm) upload_rows.simps) (simp add: Let_def)
      obtain k part where "batch_done dev rs k part (after_sent (re_update ?e) (column_int (row_id r)) ?st1) st'"
        using less.hyps [OF _ u less.prems(2) sr(2)] rows by auto
      then have "batch_done dev (r # rs) (Suc k) part st st'"
      proof (rule batch_done_Suc)
        show "uploaded_ids (up_db (after_sent (re_update ?e) (column_int (row_id r)) ?st1))
            \<subseteq> insert (column_int (row_id r)) (uploaded_ids (up_db st))"
          using uploaded_after_sent [of "re_update ?e" "column_int (row_id r)" ?st1] by simp
      qed (simp_all add: sent)
      then show ?thesis unfolding rows by blast
    next
      case fail: False
      have "strict_prefix sent (line_of dev r)" using send_loop_result [OF lp] fail by (auto simp: strict_prefix_def)
      moreover have "up_stream st' = up_stream st @ sent \<and> up_uploaded st' = up_uploaded st
        \<and> up_db st' = up_db (after_failed (re_update ?e) (column_int (row_id r)) ?st1)"
        using less.prems(1) False rd b sl fail by (subst (asm) upload_rows.simps) (auto simp: Let_def)
      moreover have "uploaded_ids (up_db (after_failed (re_update ?e) (column_int (row_id r)) ?st1))
          = uploaded_ids (up_db st)"
        by (simp add: uploaded_after_failed)
      ultimately have "batch_done dev (r # rs) 0 sent st st'"
        by (intro batch_done_fail) simp_all
      then show ?thesis unfolding rows by blast
    qed
  qed
qed


text \<open>
  Property C18. At least once: whatever the network and the database engine answer, a batch of the
  uploader marks a row as uploaded only after the whole JSON line of that row went out on the
  current connection. The bytes sent are the complete lines of the first \<open>k\<close> rows of the batch
  in order, plus a proper prefix of the next line if a send failed in it; \<^verbatim>\<open>uploaded_count\<close> grows by
  \<open>k\<close>, and no id outside those \<open>k\<close> rows becomes marked.
\<close>
theorem uploader_batch_at_least_once:
  assumes "upload_rows es dev rows d0 st = Some (d1, st')" and "length dev < 64"
    and "list_all (\<lambda>r. sample_sendable (row_sample r)) rows"
  shows "\<exists>k part. k \<le> length rows
     \<and> up_stream st' = up_stream st @ concat (map (\<lambda>r. the (json_line dev (row_sample r))) (take k rows)) @ part
     \<and> (part \<noteq> [] \<longrightarrow> k < length rows \<and> strict_prefix part (the (json_line dev (row_sample (rows ! k)))))
     \<and> up_uploaded st' = up_uploaded st + of_nat k
     \<and> uploaded_ids (up_db st') \<subseteq> uploaded_ids (up_db st) \<union> (\<lambda>r. column_int (row_id r)) ` set (take k rows)"
proof -
  have "line_of dev = (\<lambda>r. the (json_line dev (row_sample r)))" by (simp add: line_of_def fun_eq_iff)
  moreover have "rows_sendable rows" using assms(3) by (simp add: rows_sendable_def)
  ultimately show ?thesis
    using upload_rows_done [OF assms(1,2)] unfolding batch_done_def by simp
qed

text \<open>A run for the witness: one row, and a send that takes everything offered.\<close>

definition eager_env :: row_env where
  "eager_env = \<lparr>re_shutdown = False, re_step_ok = True, re_send = [Ret 1000], re_update = no_fault, re_text = ''''\<rparr>"

lemma send_eager: "data \<noteq> [] \<Longrightarrow> length data \<le> 1000 \<Longrightarrow> send_loop data [Ret 1000] = Some (0, data)"
  by (subst send_loop.simps) (simp add: send_loop.simps)

lemma sent_row_sendable: "sample_sendable (row_sample (sent_row 1 0))"
proof -
  have "f32_of_f64 (DFin False 0) = Fin False 0" by (simp add: round_eval f32_of_f64.simps)
  then show ?thesis
    by (simp add: sample_sendable_def row_sample_def sent_row_def sample_ok_def is_int64_def is_c_int_def Let_def
        fits24_0)
qed

theorem uploader_batch_at_least_once_witness:
  "\<exists>st'. upload_rows (\<lambda>_. eager_env) ''gw'' [sent_row 1 0] False (up_start small_db) = Some (True, st')
     \<and> uploaded_ids (up_db st') \<subseteq> uploaded_ids small_db \<union> {1}"
proof -
  let ?r = "sent_row 1 0"
  obtain n where b: "uploader_build_json ''gw'' (row_sample ?r) 512 = Some (line_of ''gw'' ?r, n)"
    "\<not> (n < 0 \<or> 512 \<le> n)" "line_of ''gw'' ?r \<noteq> []"
    using build_row [OF _ sent_row_sendable, of "''gw''"] by auto
  have "length (line_of ''gw'' ?r) \<le> 1000"
    using json_line_length [OF _ sent_row_sendable, of "''gw''"] by (auto simp: line_of_def)
  note s = send_eager [OF b(3) this]
  have "\<exists>st'. upload_rows (\<lambda>_. eager_env) ''gw'' [?r] False (up_start small_db) = Some (True, st')"
    using b(1,2) s
    by (simp add: upload_rows.simps uploader_read_row_def eager_env_def uploader_send_line_def Let_def)
  then obtain st' where u: "upload_rows (\<lambda>_. eager_env) ''gw'' [?r] False (up_start small_db) = Some (True, st')" ..
  from uploader_batch_at_least_once [OF u] sent_row_sendable obtain k where
    "uploaded_ids (up_db st') \<subseteq> uploaded_ids small_db \<union> (\<lambda>r. column_int (row_id r)) ` set (take k [?r])"
    by (auto simp: up_start_def)
  moreover have "(\<lambda>r. column_int (row_id r)) ` set (take k [?r]) \<subseteq> {1}"
    by (cases k) (auto simp: sent_row_def column_int_def)
  ultimately show ?thesis using u by blast
qed


subsection \<open>Work that must run out: the interface\<close>

text \<open>
  Items wait; marking one takes it off the list, failing one may, and either uses up some of a
  bounded amount of work. So batches of marks, ended by at most one failure, cannot go on for ever.
\<close>
locale work_list =
  fixes wf :: "'t \<Rightarrow> bool"
    and pending :: "'t \<Rightarrow> int list"
    and work :: "'t \<Rightarrow> nat"
    and mark :: "int \<Rightarrow> 't \<Rightarrow> 't"
    and fail :: "int \<Rightarrow> 't \<Rightarrow> 't"
  assumes wf_mark: "wf t \<Longrightarrow> wf (mark i t)"
    and wf_fail: "wf t \<Longrightarrow> wf (fail i t)"
    and pending_mark: "wf t \<Longrightarrow> pending (mark i t) = filter (\<lambda>j. j \<noteq> i) (pending t)"
    and pending_fail: "wf t \<Longrightarrow> set (pending (fail i t)) \<subseteq> set (pending t)"
    and work_mark: "wf t \<Longrightarrow> i \<in> set (pending t) \<Longrightarrow> work (mark i t) < work t"
    and work_fail: "wf t \<Longrightarrow> i \<in> set (pending t) \<Longrightarrow> work (fail i t) < work t"
begin

lemma mark_seq:
  "wf t \<Longrightarrow> distinct is \<Longrightarrow> set is \<subseteq> set (pending t) \<Longrightarrow>
     wf (fold mark is t) \<and> pending (fold mark is t) = filter (\<lambda>j. j \<notin> set is) (pending t)
     \<and> work (fold mark is t) + length is \<le> work t"
proof (induction "is" arbitrary: t)
  case (Cons i "is")
  have p: "pending (mark i t) = filter (\<lambda>j. j \<noteq> i) (pending t)" by (rule pending_mark [OF Cons.prems(1)])
  have "set is \<subseteq> set (pending (mark i t))" using Cons.prems(2,3) unfolding p by auto
  from Cons.IH [OF wf_mark [OF Cons.prems(1)] _ this] Cons.prems(2) work_mark [of t i] Cons.prems(1,3)
  show ?case unfolding p by (auto simp: conj_commute intro: filter_cong)
qed simp

text \<open>A batch that did something has used up work, whether or not it ended in a failure.\<close>
lemma batch_progress:
  assumes "wf t" and "distinct (is @ fs)" and "set (is @ fs) \<subseteq> set (pending t)" and "length fs \<le> 1"
    and "is @ fs \<noteq> []"
  shows "wf (fold fail fs (fold mark is t)) \<and> work (fold fail fs (fold mark is t)) < work t"
proof -
  have m: "wf (fold mark is t) \<and> pending (fold mark is t) = filter (\<lambda>j. j \<notin> set is) (pending t)
     \<and> work (fold mark is t) + length is \<le> work t"
    using assms(1-3) by (intro mark_seq) auto
  show ?thesis
  proof (cases fs)
    case Nil
    with m assms(5) show ?thesis by (cases "is") auto
  next
    case (Cons i fs')
    then have fs: "fs = [i]" using assms(4) by simp
    have "i \<in> set (pending (fold mark is t))" using m assms(2,3) fs by auto
    with m work_fail [of "fold mark is t" i] wf_fail [of "fold mark is t" i] show ?thesis by (simp add: fs)
  qed
qed

end

definition mark_row :: "int \<Rightarrow> table \<Rightarrow> table" where
  "mark_row i = sql_update i (\<lambda>r. r\<lparr>row_uploaded := 1\<rparr>)"

definition fail_row :: "int \<Rightarrow> table \<Rightarrow> table" where
  "fail_row i = sql_update i (\<lambda>r. r\<lparr>row_upload_retry := row_upload_retry r + 1\<rparr>)"

definition is_pending :: "int \<Rightarrow> row \<Rightarrow> bool" where
  "is_pending R r \<longleftrightarrow> row_uploaded r = 0 \<and> row_upload_retry r < R"

definition pending_ids :: "int \<Rightarrow> table \<Rightarrow> int list" where
  "pending_ids R t = map row_id (filter (is_pending R) (t_rows t))"

definition row_work :: "int \<Rightarrow> row \<Rightarrow> nat" where
  "row_work R r = (if row_uploaded r = 0 then nat (R - row_upload_retry r) else 0)"

text \<open>The number of attempts the table still allows, with at most \<open>R\<close> per row.\<close>
definition retry_work :: "int \<Rightarrow> table \<Rightarrow> nat" where
  "retry_work R t = sum_list (map (row_work R) (t_rows t))"

text \<open>A table the drain can handle: well-formed, ids that fit \<^verbatim>\<open>sqlite3_column_int\<close>, rows that fit the line.\<close>
definition table_ok :: "table \<Rightarrow> bool" where
  "table_ok t \<longleftrightarrow> table_inv t \<and> t_seq t < 2147483648 \<and> rows_sendable (t_rows t)"

lemma sum_list_strict:
  "(\<And>x. x \<in> set xs \<Longrightarrow> f x \<le> (g x :: nat)) \<Longrightarrow> x \<in> set xs \<Longrightarrow> f x < g x \<Longrightarrow>
     sum_list (map f xs) < sum_list (map g xs)"
proof (induction xs)
  case (Cons y ys)
  have "sum_list (map f ys) \<le> sum_list (map g ys)" using Cons.prems(1) by (intro sum_list_mono) simp
  then show ?case using Cons by (cases "x = y") (force intro: add_less_le_mono add_le_less_mono)+
qed simp

lemma work_update:
  assumes "\<And>r. row_work R (f r) \<le> row_work R r" and "\<And>r. is_pending R r \<Longrightarrow> row_work R (f r) < row_work R r"
    and "i \<in> set (pending_ids R t)"
  shows "retry_work R (sql_update i f t) < retry_work R t"
proof -
  obtain r where r: "r \<in> set (t_rows t)" "is_pending R r" "row_id r = i"
    using assms(3) by (auto simp: pending_ids_def)
  have "sum_list (map (\<lambda>r. row_work R (if row_id r = i then f r else r)) (t_rows t))
      < sum_list (map (row_work R) (t_rows t))"
    using assms(1) assms(2) [OF r(2)] r(3) by (intro sum_list_strict [OF _ r(1)]) auto
  then show ?thesis by (simp add: retry_work_def sql_update_def comp_def)
qed

lemma table_ok_update:
  assumes "table_ok t" and "\<And>r. row_id (f r) = row_id r" and "\<And>r. row_sample (f r) = row_sample r"
  shows "table_ok (sql_update i f t)"
proof -
  have "table_inv (sql_update i f t)" using assms(1,2) table_inv_update by (simp add: table_ok_def)
  with assms show ?thesis by (auto simp: table_ok_def sql_update_def rows_sendable_def list_all_iff)
qed

interpretation pend: work_list table_ok "pending_ids R" "retry_work R" mark_row fail_row for R
proof
  fix t :: table and i
  show "table_ok t \<Longrightarrow> table_ok (mark_row i t)" "table_ok t \<Longrightarrow> table_ok (fail_row i t)"
    unfolding mark_row_def fail_row_def by (rule table_ok_update; simp add: row_sample_def)+
  show "pending_ids R (mark_row i t) = filter (\<lambda>j. j \<noteq> i) (pending_ids R t)"
  proof -
    have "filter (is_pending R) (t_rows (mark_row i t)) = filter (\<lambda>r. row_id r \<noteq> i \<and> is_pending R r) (t_rows t)"
      unfolding mark_row_def by (rule tbl.update_query) (simp_all add: is_pending_def)
    then show ?thesis by (simp add: pending_ids_def filter_map comp_def conj_commute)
  qed
  show "set (pending_ids R (fail_row i t)) \<subseteq> set (pending_ids R t)"
    by (auto simp: pending_ids_def fail_row_def sql_update_def is_pending_def split: if_splits)
  show "retry_work R (mark_row i t) < retry_work R t" if "i \<in> set (pending_ids R t)"
    unfolding mark_row_def using that by (intro work_update) (auto simp: row_work_def is_pending_def)
  show "retry_work R (fail_row i t) < retry_work R t" if "i \<in> set (pending_ids R t)"
    unfolding fail_row_def using that by (intro work_update) (auto simp: row_work_def is_pending_def)
qed


subsection \<open>The drain\<close>

text \<open>An engine that works and a kernel that answers every send of a line; then all sends good, or all bad.\<close>

definition world_answers :: "(nat \<Rightarrow> row_env) \<Rightarrow> bool" where
  "world_answers es \<longleftrightarrow> (\<forall>n. re_step_ok (es n) \<and> sql_fault (re_update (es n)) = Works
     \<and> (\<forall>data. length data < 512 \<longrightarrow> send_loop data (re_send (es n)) \<noteq> None))"

definition peer_takes_all :: "(nat \<Rightarrow> row_env) \<Rightarrow> bool" where
  "peer_takes_all es \<longleftrightarrow> (\<forall>n data. length data < 512 \<longrightarrow> send_loop data (re_send (es n)) = Some (0, data))"

definition peer_gone :: "(nat \<Rightarrow> row_env) \<Rightarrow> bool" where
  "peer_gone es \<longleftrightarrow> (\<forall>n data. data \<noteq> [] \<and> length data < 512 \<longrightarrow> (\<exists>sent. send_loop data (re_send (es n)) = Some (-1, sent)))"

lemma after_sent_works:
  "sql_fault e = Works \<Longrightarrow> db_table (up_db st) = Some t \<Longrightarrow>
     db_table (up_db (after_sent e i st)) = Some (mark_row i t)"
  by (simp add: after_sent_def sqlite_store_mark_uploaded_def prepared_def mark_row_def)

lemma after_failed_works:
  "sql_fault e = Works \<Longrightarrow> db_table (up_db st) = Some t \<Longrightarrow>
     db_table (up_db (after_failed e i st)) = Some (fail_row i t)"
  by (simp add: after_failed_def sqlite_store_inc_retry_def prepared_def fail_row_def)

text \<open>What the rows of one drain round do: a run of marks, then at most one failure.\<close>
lemma drain_rows_effect:
  assumes "length dev < 64" and "world_answers es"
  shows "rows_sendable rows \<Longrightarrow> list_all (\<lambda>r. column_int (row_id r) = row_id r) rows \<Longrightarrow>
     db_table (up_db st) = Some t \<Longrightarrow>
     \<exists>st' is fs. drain_rows es dev rows d st = Some (d \<or> rows \<noteq> [], st')
       \<and> prefix (is @ fs) (map row_id rows) \<and> length fs \<le> 1 \<and> (rows \<noteq> [] \<longrightarrow> is @ fs \<noteq> [])
       \<and> db_table (up_db st') = Some (fold fail_row fs (fold mark_row is t))
       \<and> (peer_takes_all es \<longrightarrow> fs = []) \<and> (peer_gone es \<longrightarrow> is = [])"
proof (induction rows arbitrary: d st t)
  case Nil
  have "re_step_ok (es (up_tick st))" using assms(2) by (simp add: world_answers_def)
  then have "drain_rows es dev [] d st = Some (d, next_tick st)"
    by (subst drain_rows.simps) (simp add: uploader_read_row_def)
  with Nil show ?case by (intro exI [of _ "next_tick st"] exI [of _ "[]"]) simp
next
  case (Cons r rs)
  let ?e = "es (up_tick st)"
  have w: "re_step_ok ?e" "sql_fault (re_update ?e) = Works" "\<And>data. length data < 512 \<Longrightarrow> send_loop data (re_send ?e) \<noteq> None"
    using assms(2) by (auto simp: world_answers_def)
  have rd: "uploader_read_row (re_step_ok ?e) (r # rs) = (1, Some (row_id r, row_sample r), rs)"
    using w(1) Cons.prems(2) by (simp add: uploader_read_row_def)
  have sr: "sample_sendable (row_sample r)" "rows_sendable rs"
    using Cons.prems(1) by (simp_all add: rows_sendable_def)
  obtain n where b: "uploader_build_json dev (row_sample r) 512 = Some (line_of dev r, n)" "\<not> (n < 0 \<or> 512 \<le> n)"
    "line_of dev r \<noteq> []" using build_row [OF assms(1) sr(1)] by blast
  have len: "length (line_of dev r) < 512" using json_line_length [OF assms(1) sr(1)] by (auto simp: line_of_def)
  obtain rc sent where lp: "send_loop (line_of dev r) (re_send ?e) = Some (rc, sent)"
    using w(3) [OF len] by fastforce
  then obtain logs where sl: "uploader_send_line (line_of dev r) (re_send ?e) (re_text ?e) = Some (rc, sent, logs)"
    by (simp add: uploader_send_line_def)
  let ?st1 = "(next_tick st)\<lparr>up_stream := up_stream (next_tick st) @ sent, up_logs := up_logs (next_tick st) @ logs\<rparr>"
  have t1: "db_table (up_db ?st1) = Some t" using Cons.prems(3) by simp
  show ?case
  proof (cases "rc = 0")
    case True
    let ?st2 = "after_sent (re_update ?e) (row_id r) ?st1"
    have step: "drain_rows es dev (r # rs) d st = drain_rows es dev rs True ?st2"
      using rd b sl True by (subst drain_rows.simps) (simp add: Let_def)
    have "list_all (\<lambda>r. column_int (row_id r) = row_id r) rs" using Cons.prems(2) by simp
    from Cons.IH [OF sr(2) this after_sent_works [OF w(2) t1, of "row_id r"], of True]
    obtain st' "is" fs where IH: "drain_rows es dev rs True ?st2 = Some (True, st')"
      "prefix (is @ fs) (map row_id rs)" "length fs \<le> 1"
      "db_table (up_db st') = Some (fold fail_row fs (fold mark_row is (mark_row (row_id r) t)))"
      "peer_takes_all es \<longrightarrow> fs = []" "peer_gone es \<longrightarrow> is = []"
      by (simp only: simp_thms) blast
    have "\<not> peer_gone es"
    proof
      assume "peer_gone es"
      then obtain s where "send_loop (line_of dev r) (re_send ?e) = Some (-1, s)"
        using b(3) len unfolding peer_gone_def by blast
      with lp True show False by simp
    qed
    with IH show ?thesis unfolding step by (intro exI [of _ st'] exI [of _ "row_id r # is"] exI [of _ fs]) simp
  next
    case False
    let ?st2 = "up_log (LOG_LEVEL_WARN, ''uploader: send failed during drain'')
        (after_failed (re_update ?e) (row_id r) ?st1)"
    have step: "drain_rows es dev (r # rs) d st = Some (True, ?st2)"
      using rd b sl False by (subst drain_rows.simps) (simp add: Let_def)
    have "\<not> peer_takes_all es"
    proof
      assume "peer_takes_all es"
      then have "send_loop (line_of dev r) (re_send ?e) = Some (0, line_of dev r)"
        using len unfolding peer_takes_all_def by blast
      with lp False show False by simp
    qed
    moreover have "db_table (up_db ?st2) = Some (fail_row (row_id r) t)"
      using after_failed_works [OF w(2) t1] by simp
    ultimately show ?thesis unfolding step
      by (intro exI [of _ ?st2] exI [of _ "[]"] exI [of _ "[row_id r]"]) simp
  qed
qed

lemma unuploaded_pending: "sql_unuploaded R B t = sql_limit B (filter (is_pending R) (t_rows t))"
  by (simp add: sql_unuploaded_def is_pending_def [abs_def])

lemma prefix_limit: "prefix (sql_limit n xs) xs"
  by (simp add: sql_limit_def take_is_prefix)

lemma limit_empty: "B \<noteq> 0 \<Longrightarrow> sql_limit B xs = [] \<Longrightarrow> xs = []"
  by (auto simp: sql_limit_def split: if_splits)

lemma query_facts:
  assumes "table_ok t" and "rows = sql_unuploaded R B t"
  shows "rows_sendable rows" and "list_all (\<lambda>r. column_int (row_id r) = row_id r) rows"
    and "prefix (map row_id rows) (pending_ids R t)" and "distinct (pending_ids R t)"
proof -
  have sub: "set rows \<subseteq> set (t_rows t)"
    unfolding assms(2) unuploaded_pending using set_mono_prefix [OF prefix_limit] by fastforce
  then show "rows_sendable rows" using assms(1) by (auto simp: table_ok_def rows_sendable_def list_all_iff)
  show "list_all (\<lambda>r. column_int (row_id r) = row_id r) rows"
    using assms(1) sub by (force simp: table_ok_def table_inv_def list_all_iff intro!: column_int_id)
  show "prefix (map row_id rows) (pending_ids R t)"
    unfolding assms(2) unuploaded_pending pending_ids_def by (rule map_mono_prefix) (rule prefix_limit)
  have "distinct (map row_id (t_rows t))" using assms(1) by (intro tbl.keys_distinct) (simp add: table_ok_def)
  then show "distinct (pending_ids R t)" unfolding pending_ids_def by (rule distinct_map_filter)
qed


text \<open>Marking keeps the retries, failing keeps the marks.\<close>

lemma marks_keep_retries:
  "map (\<lambda>r. (row_id r, row_upload_retry r)) (t_rows (fold mark_row is t))
   = map (\<lambda>r. (row_id r, row_upload_retry r)) (t_rows t)"
  by (induction "is" arbitrary: t) (simp_all add: mark_row_def sql_update_def comp_def)

lemma fails_keep_marks:
  "map (\<lambda>r. (row_id r, row_uploaded r)) (t_rows (fold fail_row is t))
   = map (\<lambda>r. (row_id r, row_uploaded r)) (t_rows t)"
  by (induction "is" arbitrary: t) (simp_all add: fail_row_def sql_update_def comp_def)

lemma drain_loop_ends:
  assumes "length (up_device_id ctx) < 64" and "world_answers es" and "\<And>n. sql_fault (qs n) = Works"
    and "up_batch_max ctx \<noteq> 0"
  shows "db_table (up_db st) = Some t \<Longrightarrow> table_ok t \<Longrightarrow> retry_work (up_retry_max ctx) t < fuel \<Longrightarrow>
     \<exists>st' t'. drain_loop ctx es qs n fuel st = Some st' \<and> db_table (up_db st') = Some t'
       \<and> filter (is_pending (up_retry_max ctx)) (t_rows t') = []
       \<and> (peer_takes_all es \<longrightarrow> map (\<lambda>r. (row_id r, row_upload_retry r)) (t_rows t')
             = map (\<lambda>r. (row_id r, row_upload_retry r)) (t_rows t))
       \<and> (peer_gone es \<longrightarrow> map (\<lambda>r. (row_id r, row_uploaded r)) (t_rows t')
             = map (\<lambda>r. (row_id r, row_uploaded r)) (t_rows t))"
proof (induction fuel arbitrary: n st t)
  case (Suc fuel)
  let ?R = "up_retry_max ctx" and ?rows = "sql_unuploaded (up_retry_max ctx) (up_batch_max ctx) t"
  have q: "uploader_query_unuploaded (qs n) (up_db st) (up_batch_max ctx) ?R = (0, ?rows, [])"
    using assms(3) [of n] Suc.prems(1) by (simp add: uploader_query_unuploaded_def prepared_def)
  note qf = query_facts [OF Suc.prems(2), of ?rows ?R "up_batch_max ctx", OF refl]
  let ?st1 = "st\<lparr>up_logs := up_logs st @ []\<rparr>"
  have t1: "db_table (up_db ?st1) = Some t" using Suc.prems(1) by simp
  obtain st2 "is" fs where d: "drain_rows es (up_device_id ctx) ?rows False ?st1 = Some (?rows \<noteq> [], st2)"
    "prefix (is @ fs) (map row_id ?rows)" "length fs \<le> 1" "?rows \<noteq> [] \<longrightarrow> is @ fs \<noteq> []"
    "db_table (up_db st2) = Some (fold fail_row fs (fold mark_row is t))"
    "peer_takes_all es \<longrightarrow> fs = []" "peer_gone es \<longrightarrow> is = []"
    using drain_rows_effect [OF assms(1,2) qf(1,2) t1, of False] by (simp only: simp_thms) blast
  let ?t2 = "fold fail_row fs (fold mark_row is t)"
  show ?case
  proof (cases "?rows = []")
    case True
    then have "filter (is_pending ?R) (t_rows t) = []"
      unfolding unuploaded_pending by (rule limit_empty [OF assms(4)])
    moreover have "?t2 = t" using d(2) True by simp
    moreover have "drain_loop ctx es qs n (Suc fuel) st = Some st2"
      using d(1) True by (simp add: q)
    ultimately show ?thesis using d(5) by (intro exI [of _ st2] exI [of _ t]) simp
  next
    case False
    have "prefix (is @ fs) (pending_ids ?R t)" using d(2) qf(3) by (rule prefix_order.trans)
    then have "distinct (is @ fs)" "set (is @ fs) \<subseteq> set (pending_ids ?R t)"
      using qf(4) by (auto simp: prefix_def)
    from pend.batch_progress [OF Suc.prems(2) this d(3)] d(4) False
    have p: "table_ok ?t2" "retry_work ?R ?t2 < retry_work ?R t" by auto
    have "retry_work ?R ?t2 < fuel" using p(2) Suc.prems(3) by simp
    from Suc.IH [OF d(5) p(1) this, of "n + 1"]
    obtain st' t' where IH: "drain_loop ctx es qs (n + 1) fuel st2 = Some st'" "db_table (up_db st') = Some t'"
      "filter (is_pending ?R) (t_rows t') = []"
      "peer_takes_all es \<longrightarrow> map (\<lambda>r. (row_id r, row_upload_retry r)) (t_rows t')
             = map (\<lambda>r. (row_id r, row_upload_retry r)) (t_rows ?t2)"
      "peer_gone es \<longrightarrow> map (\<lambda>r. (row_id r, row_uploaded r)) (t_rows t')
             = map (\<lambda>r. (row_id r, row_uploaded r)) (t_rows ?t2)" by blast
    have "drain_loop ctx es qs n (Suc fuel) st = Some st'" using d(1) False IH(1) by (simp add: q)
    moreover have "peer_takes_all es \<longrightarrow> map (\<lambda>r. (row_id r, row_upload_retry r)) (t_rows t')
        = map (\<lambda>r. (row_id r, row_upload_retry r)) (t_rows t)"
      using IH(4) d(6) marks_keep_retries by auto
    moreover have "peer_gone es \<longrightarrow> map (\<lambda>r. (row_id r, row_uploaded r)) (t_rows t')
        = map (\<lambda>r. (row_id r, row_uploaded r)) (t_rows t)"
      using IH(5) d(7) fails_keep_marks by auto
    ultimately show ?thesis using IH(2,3) by blast
  qed
qed simp


text \<open>
  Property C19. What the drain achieves. With a peer that takes every line, each row that still had
  an attempt is uploaded at its end. With a peer that is gone nothing becomes uploaded, yet the
  drain stays on the dead connection until every unsent row has used up its attempts, so none of
  them will be offered again after a restart.
\<close>
theorem uploader_drain_outcome:
  assumes "length (up_device_id ctx) < 64" and "world_answers es" and "\<And>n. sql_fault (qs n) = Works"
    and "up_batch_max ctx \<noteq> 0" and "db_table (up_db st) = Some t" and "table_ok t"
    and "retry_work (up_retry_max ctx) t < fuel"
  shows "\<exists>st'. drain_loop ctx es qs n fuel st = Some st'
    \<and> (peer_takes_all es \<longrightarrow>
        list_all (\<lambda>r. row_uploaded r = 0 \<and> row_upload_retry r < up_retry_max ctx
                        \<longrightarrow> row_id r \<in> uploaded_ids (up_db st')) (t_rows t))
    \<and> (peer_gone es \<longrightarrow> uploaded_ids (up_db st') = uploaded_ids (up_db st)
        \<and> sql_unuploaded (up_retry_max ctx) (up_batch_max ctx) (the (db_table (up_db st'))) = [])"
proof -
  let ?R = "up_retry_max ctx"
  obtain st' t' where e: "drain_loop ctx es qs n fuel st = Some st'" "db_table (up_db st') = Some t'"
    "filter (is_pending ?R) (t_rows t') = []"
    "peer_takes_all es \<longrightarrow> map (\<lambda>r. (row_id r, row_upload_retry r)) (t_rows t')
        = map (\<lambda>r. (row_id r, row_upload_retry r)) (t_rows t)"
    "peer_gone es \<longrightarrow> map (\<lambda>r. (row_id r, row_uploaded r)) (t_rows t')
        = map (\<lambda>r. (row_id r, row_uploaded r)) (t_rows t)"
    using drain_loop_ends [where qs = qs and n = n, OF assms(1,2,3,4,5,6,7)] by blast
  have "row_id r \<in> uploaded_ids (up_db st')"
    if "peer_takes_all es" "r \<in> set (t_rows t)" "row_upload_retry r < ?R" for r
  proof -
    have "(row_id r, row_upload_retry r) \<in> set (map (\<lambda>r. (row_id r, row_upload_retry r)) (t_rows t'))"
      using e(4) that(1,2) by auto
    then obtain r' where r': "r' \<in> set (t_rows t')" "row_id r' = row_id r" "row_upload_retry r' = row_upload_retry r"
      by auto
    then have "row_uploaded r' \<noteq> 0" using e(3) that(3) by (auto simp: filter_empty_conv is_pending_def)
    with r' e(2) show ?thesis by (auto simp: uploaded_ids_def image_iff)
  qed
  moreover have "uploaded_ids (up_db st') = uploaded_ids (up_db st)" if "peer_gone es"
  proof -
    have ids: "uploaded_ids d = fst ` {p \<in> set (map (\<lambda>r. (row_id r, row_uploaded r)) (t_rows u)). snd p \<noteq> 0}"
      if "db_table d = Some u" for d u
      using that by (force simp: uploaded_ids_def image_iff)
    show ?thesis unfolding ids [OF e(2)] ids [OF assms(5)] using e(5) that by simp
  qed
  moreover have "sql_unuploaded ?R (up_batch_max ctx) t' = []"
    unfolding unuploaded_pending e(3) by (simp add: sql_limit_def)
  ultimately show ?thesis using e(1,2) by (simp add: list_all_iff)
qed


text \<open>Runs for the witnesses: a peer that takes every line, on a table with two unsent rows.\<close>

lemma rows_sendable_small: "table_ok small_table"
proof -
  have "sample_sendable (row_sample (sent_row i u))" if "i \<in> {1, 2, 3}" for i u
  proof -
    have "f32_of_f64 (DFin False 0) = Fin False 0" by (simp add: round_eval f32_of_f64.simps)
    with that show ?thesis
      by (auto simp: sample_sendable_def row_sample_def sent_row_def sample_ok_def is_int64_def is_c_int_def
          Let_def fits24_0)
  qed
  then show ?thesis
    using small_table_inv by (simp add: table_ok_def rows_sendable_def) (simp add: small_table_def)
qed

lemma send_eager_all: "length data < 512 \<Longrightarrow> send_loop data [Ret 1000] = Some (0, data)"
  using send_eager [of data] by (cases "data = []") (simp_all add: send_loop.simps)

lemma eager_world: "world_answers (\<lambda>_. eager_env)" "peer_takes_all (\<lambda>_. eager_env)"
  by (simp_all add: world_answers_def peer_takes_all_def eager_env_def send_eager_all no_fault_def)

definition small_ctx :: uploader_ctx where
  "small_ctx = \<lparr>up_device_id = ''gw'', up_server_host = ''127.0.0.1'', up_server_port = 9000, up_period_ms = 5000,
     up_batch_max = 10, up_retry_max = 3\<rparr>"

lemma small_drain_hyps:
  "length (up_device_id small_ctx) < 64" "\<And>n :: nat. sql_fault ((\<lambda>_. no_fault) n) = Works" "up_batch_max small_ctx \<noteq> 0"
  "db_table (up_db (up_start small_db)) = Some small_table"
  "retry_work (up_retry_max small_ctx) small_table < 7"
  by (simp_all add: small_ctx_def up_start_def small_db_def retry_work_def small_table_def row_work_def sent_row_def
      no_fault_def)


theorem uploader_drain_outcome_witness:
  "\<exists>st'. drain_loop small_ctx (\<lambda>_. eager_env) (\<lambda>_. no_fault) 0 7 (up_start small_db) = Some st'
     \<and> {1, 3} \<subseteq> uploaded_ids (up_db st')"
proof -
  obtain st' where d: "drain_loop small_ctx (\<lambda>_. eager_env) (\<lambda>_. no_fault) 0 7 (up_start small_db) = Some st'"
    "list_all (\<lambda>r. row_uploaded r = 0 \<and> row_upload_retry r < up_retry_max small_ctx
        \<longrightarrow> row_id r \<in> uploaded_ids (up_db st')) (t_rows small_table)"
    using uploader_drain_outcome [where qs = "\<lambda>_. no_fault" and n = 0,
      OF small_drain_hyps(1) eager_world(1) small_drain_hyps(2,3,4) rows_sendable_small small_drain_hyps(5)]
      eager_world(2) by blast
  then show ?thesis by (simp add: small_table_def sent_row_def small_ctx_def)
qed

end
