(* ===== verification/Gateway_Contexts.thy ===== *)
theory Gateway_Contexts
  imports Gateway_Collect Processor Uploader
begin

section \<open>The contexts of the threads (\<^verbatim>\<open>app/src/main.c\<close>)\<close>

text \<open>
  What \<^verbatim>\<open>main\<close> and \<^verbatim>\<open>run_test\<close> put into the context of each thread before they start it: each
  structure cleared, then filled from the configuration. The queues and the database handle
  the contexts point to are arguments of the thread models.
\<close>

definition DEFAULT_QUEUE_CAPACITY :: int where
  "DEFAULT_QUEUE_CAPACITY = 64"

definition zero_threshold :: processor_threshold where
  "zero_threshold = \<lparr>ph_min = Fin False 0, ph_max = Fin False 0, temp_min = Fin False 0, temp_max = Fin False 0,
     turb_max = Fin False 0, cond_max = Fin False 0\<rparr>"

definition main_collect_ctx :: "gateway_config \<Rightarrow> int \<Rightarrow> collect_ctx" where
  "main_collect_ctx cfg fd = \<lparr>cc_cfg = cfg, cc_serial_fd = fd\<rparr>"

definition main_proc_ctx :: "int \<Rightarrow> processor_ctx" where
  "main_proc_ctx afd =
     \<lparr>thresholds = the (processor_threshold_default (Some zero_threshold)), alarm_fd = afd, ctx_sample_counter = 0\<rparr>"

definition main_store_ctx :: "gateway_config \<Rightarrow> store_ctx" where
  "main_store_ctx cfg =
     \<lparr>st_device_id = cfg_device_id cfg, st_max_cache_count = cfg_max_cache_count cfg, st_sample_counter = 0,
      st_write_count = 0, st_write_fail_count = 0\<rparr>"

definition main_upload_ctx :: "gateway_config \<Rightarrow> uploader_ctx" where
  "main_upload_ctx cfg =
     \<lparr>up_device_id = cfg_device_id cfg, up_server_host = cfg_upload_server_host cfg,
      up_server_port = cfg_upload_server_port cfg, up_period_ms = cfg_upload_period_ms cfg,
      up_batch_max = cfg_upload_batch_max cfg, up_retry_max = cfg_upload_retry_max cfg\<rparr>"

text \<open>The pipeline test: its configuration, no serial port and no alarm device.\<close>

definition test_config :: gateway_config where
  "test_config = default_config\<lparr>cfg_sample_period_ms := 50, cfg_upload_period_ms := 200, cfg_upload_batch_max := 100\<rparr>"

definition test_collect_ctx :: collect_ctx where
  "test_collect_ctx = \<lparr>cc_cfg = test_config, cc_serial_fd = -1\<rparr>"

definition test_proc_ctx :: processor_ctx where
  "test_proc_ctx =
     \<lparr>thresholds = the (processor_threshold_default (Some zero_threshold)), alarm_fd = -1, ctx_sample_counter = 0\<rparr>"

definition test_store_ctx :: store_ctx where
  "test_store_ctx =
     \<lparr>st_device_id = cfg_device_id test_config, st_max_cache_count = cfg_max_cache_count test_config,
      st_sample_counter = 0, st_write_count = 0, st_write_fail_count = 0\<rparr>"

definition test_upload_ctx :: uploader_ctx where
  "test_upload_ctx =
     \<lparr>up_device_id = cfg_device_id test_config, up_server_host = cfg_upload_server_host test_config,
      up_server_port = cfg_upload_server_port test_config, up_period_ms = cfg_upload_period_ms test_config,
      up_batch_max = cfg_upload_batch_max test_config, up_retry_max = cfg_upload_retry_max test_config\<rparr>"

lemma main_thresholds [simp]: "thresholds (main_proc_ctx afd) = default_threshold"
  by (simp add: main_proc_ctx_def processor_threshold_default_def)

lemma test_contexts:
  "test_collect_ctx = main_collect_ctx test_config (-1)" "test_proc_ctx = main_proc_ctx (-1)"
  "test_store_ctx = main_store_ctx test_config" "test_upload_ctx = main_upload_ctx test_config"
  by (simp_all add: test_collect_ctx_def test_proc_ctx_def test_store_ctx_def test_upload_ctx_def
      main_collect_ctx_def main_proc_ctx_def main_store_ctx_def main_upload_ctx_def)

lemma test_config_valid: "config_valid test_config"
  using default_config_fits by (simp add: config_valid_def config_fits_def test_config_def default_config_def is_c_int_def)

end
