(* ===== verification/Gateway_Main.thy ===== *)
theory Gateway_Main
  imports Gateway_Args Gateway_Contexts
begin

section \<open>The main program (\<^verbatim>\<open>app/src/main.c\<close>)\<close>

text \<open>
  Start-up, shutdown and clean-up of \<^verbatim>\<open>main\<close> and of \<^verbatim>\<open>run_test\<close>, statement by statement. The state
  holds what the process owns (queue memory, descriptors, the database handle, threads that
  run), the flags the threads look at, the queues, the database and the counters they share, the
  logger, and a ghost list of events. What the outside world answers is the environment; the
  threads that run may change everything shared (\<open>e_work\<close>) whenever \<^verbatim>\<open>main\<close> sleeps or joins. A
  thread returns once its flag is set (its waits are bounded), so \<^verbatim>\<open>pthread_join\<close> of a thread
  that runs with its flag set comes back; of any other it does not, which is the result \<open>None\<close>.
\<close>

subsection \<open>State and environment\<close>

datatype worker = Collect | Process | Store | Upload

datatype event = Started worker | Told worker | Joined worker | Closed_db | Freed_queue | Closed_fd

text \<open>What the threads share: the two queues, the database, the counters of store and uploader.\<close>
record shared =
  sh_raw :: sample_queue
  sh_store :: sample_queue
  sh_db :: database
  sh_written :: ulong
  sh_failed :: ulong
  sh_uploaded :: ulong
  sh_up_failed :: ulong

record main_env =
  e_now :: "nat \<Rightarrow> string"
  e_config :: "string \<Rightarrow> string option"
  e_log_opens :: "string \<Rightarrow> bool"
  e_port :: port_env
  e_serial_fd :: int
  e_alarm_fd :: int
  e_alloc_raw :: "bool \<times> bool"
  e_alloc_store :: "bool \<times> bool"
  e_db :: "string + database"
  e_create_table :: "sql_env \<times> sql_env \<times> sql_env"
  e_creates :: "worker \<Rightarrow> bool"
  e_work :: "nat \<Rightarrow> shared \<Rightarrow> shared"
  e_beats :: nat
  e_total :: sql_env
  e_unuploaded :: sql_env
  e_pid :: int

record gateway =
  gw_res :: resources
  gw_port :: port_state
  gw_db :: "database option"
  gw_raw :: "sample_queue option"
  gw_store :: "sample_queue option"
  gw_g_shutdown :: bool
  gw_told :: "worker \<Rightarrow> bool"
  gw_running :: "worker list"
  gw_written :: ulong
  gw_failed :: ulong
  gw_uploaded :: ulong
  gw_up_failed :: ulong
  gw_logger :: logger
  gw_ticks :: nat
  gw_events :: "event list"

text \<open>One statement of the program; \<open>None\<close> when it does not come back.\<close>
type_synonym stmt = "gateway \<Rightarrow> gateway option"

fun stmts :: "stmt list \<Rightarrow> stmt" where
  "stmts [] g = Some g"
| "stmts (c # cs) g = (case c g of None \<Rightarrow> None | Some g1 \<Rightarrow> stmts cs g1)"

text \<open>Statements that end in \<^verbatim>\<open>return code\<close>.\<close>
definition returning :: "int \<Rightarrow> stmt list \<Rightarrow> gateway \<Rightarrow> (int \<times> gateway) option" where
  "returning code cs g = map_option (Pair code) (stmts cs g)"

subsection \<open>Statements\<close>

text \<open>A log call, and those a component has made.\<close>

definition put_log :: "main_env \<Rightarrow> log_msg \<Rightarrow> gateway \<Rightarrow> gateway" where
  "put_log e m g = g\<lparr>gw_logger := logger_log (e_now e (gw_ticks g)) m (gw_logger g), gw_ticks := gw_ticks g + 1\<rparr>"

definition put_logs :: "main_env \<Rightarrow> log_msg list \<Rightarrow> gateway \<Rightarrow> gateway" where
  "put_logs e ms g = fold (put_log e) ms g"

definition log_error :: "main_env \<Rightarrow> string \<Rightarrow> stmt" where
  "log_error e t g = Some (put_log e (LOG_LEVEL_ERROR, t) g)"

definition log_info :: "main_env \<Rightarrow> string \<Rightarrow> stmt" where
  "log_info e t g = Some (put_log e (LOG_LEVEL_INFO, t) g)"

definition note_event :: "event \<Rightarrow> gateway \<Rightarrow> gateway" where
  "note_event ev g = g\<lparr>gw_events := gw_events g @ [ev]\<rparr>"

text \<open>The flag a thread looks at: \<^verbatim>\<open>g_shutdown\<close> for the collector, its own \<^verbatim>\<open>shutdown\<close> for the others.\<close>

definition set_g_shutdown :: stmt where
  "set_g_shutdown g = Some (g\<lparr>gw_g_shutdown := True\<rparr>)"

definition set_shutdown :: "worker \<Rightarrow> stmt" where
  "set_shutdown w g = Some (note_event (Told w) (g\<lparr>gw_told := (gw_told g)(w := True)\<rparr>))"

definition must_stop :: "worker \<Rightarrow> gateway \<Rightarrow> bool" where
  "must_stop w g = (if w = Collect then gw_g_shutdown g else gw_told g w)"

definition shutdown_raw :: stmt where
  "shutdown_raw g = Some (g\<lparr>gw_raw := sample_queue_shutdown (gw_raw g)\<rparr>)"

definition shutdown_store :: stmt where
  "shutdown_store g = Some (g\<lparr>gw_store := sample_queue_shutdown (gw_store g)\<rparr>)"

text \<open>What the running threads do to the shared state in the meantime.\<close>
definition threads_work :: "main_env \<Rightarrow> gateway \<Rightarrow> gateway" where
  "threads_work e g =
     (case (gw_raw g, gw_store g, gw_db g) of
        (Some r, Some s, Some d) \<Rightarrow>
          if gw_running g = [] then g
          else
            (let sh = e_work e (gw_ticks g) \<lparr>sh_raw = r, sh_store = s, sh_db = d, sh_written = gw_written g,
                        sh_failed = gw_failed g, sh_uploaded = gw_uploaded g, sh_up_failed = gw_up_failed g\<rparr>
             in g\<lparr>gw_raw := Some (sh_raw sh), gw_store := Some (sh_store sh), gw_db := Some (sh_db sh),
                  gw_written := sh_written sh, gw_failed := sh_failed sh, gw_uploaded := sh_uploaded sh,
                  gw_up_failed := sh_up_failed sh, gw_ticks := gw_ticks g + 1\<rparr>)
      | _ \<Rightarrow> g)"

definition pause :: "main_env \<Rightarrow> stmt" where
  "pause e g = Some (threads_work e g)"

text \<open>\<^verbatim>\<open>pthread_create\<close> that works, and \<^verbatim>\<open>pthread_join\<close>.\<close>

definition start_thread :: "worker \<Rightarrow> gateway \<Rightarrow> gateway" where
  "start_thread w g = note_event (Started w) (g\<lparr>gw_running := gw_running g @ [w]\<rparr>)"

definition join :: "main_env \<Rightarrow> worker \<Rightarrow> stmt" where
  "join e w g =
     (if w \<in> set (gw_running g) \<and> must_stop w g
      then Some (note_event (Joined w) ((threads_work e g)\<lparr>gw_running := remove1 w (gw_running g)\<rparr>))
      else None)"

text \<open>Releasing what the process owns.\<close>

definition close_db :: "main_env \<Rightarrow> stmt" where
  "close_db e g = Some (put_logs e (sqlite_store_close (gw_db g)) (note_event Closed_db (g\<lparr>gw_db := None\<rparr>)))"

definition destroy_raw :: stmt where
  "destroy_raw g = Some (note_event Freed_queue (g\<lparr>gw_res := sample_queue_destroy (gw_raw g) (gw_res g), gw_raw := None\<rparr>))"

definition destroy_store :: stmt where
  "destroy_store g = Some (note_event Freed_queue (g\<lparr>gw_res := sample_queue_destroy (gw_store g) (gw_res g), gw_store := None\<rparr>))"

definition close_serial :: "int \<Rightarrow> stmt" where
  "close_serial fd g =
     Some (if fd \<ge> 0 then note_event Closed_fd (g\<lparr>gw_port := snd (serial_close fd (gw_port g))\<rparr>) else g)"

definition close_alarm :: "int \<Rightarrow> stmt" where
  "close_alarm fd g =
     Some (if alarm_client_close fd then note_event Closed_fd (g\<lparr>gw_port := close_fd fd (gw_port g)\<rparr>) else g)"

definition close_log_file :: stmt where
  "close_log_file g = Some (g\<lparr>gw_logger := logger_close_log_file (gw_logger g)\<rparr>)"

subsection \<open>Acquiring\<close>

definition create_raw :: "main_env \<Rightarrow> gateway \<Rightarrow> gateway" where
  "create_raw e g =
     (case sample_queue_create (fst (e_alloc_raw e)) (snd (e_alloc_raw e)) DEFAULT_QUEUE_CAPACITY (gw_res g) of
        (q, res) \<Rightarrow> g\<lparr>gw_raw := q, gw_res := res\<rparr>)"

definition create_store :: "main_env \<Rightarrow> gateway \<Rightarrow> gateway" where
  "create_store e g =
     (case sample_queue_create (fst (e_alloc_store e)) (snd (e_alloc_store e)) DEFAULT_QUEUE_CAPACITY (gw_res g) of
        (q, res) \<Rightarrow> g\<lparr>gw_store := q, gw_res := res\<rparr>)"

text \<open>Return code and state, with the log calls made.\<close>

definition open_db :: "main_env \<Rightarrow> string \<Rightarrow> gateway \<Rightarrow> int \<times> gateway" where
  "open_db e path g =
     (case sqlite_store_open (Some path) (e_db e) of
        (rc, d, logs) \<Rightarrow> (rc, put_logs e logs (g\<lparr>gw_db := d\<rparr>)))"

definition create_table :: "main_env \<Rightarrow> gateway \<Rightarrow> int \<times> gateway" where
  "create_table e g =
     (case e_create_table e of (e1, e2, e3) \<Rightarrow>
        (case sqlite_store_create_table e1 e2 e3 (gw_db g) of
           (rc, d, logs) \<Rightarrow> (rc, put_logs e logs (g\<lparr>gw_db := d\<rparr>))))"

definition open_serial :: "main_env \<Rightarrow> gateway_config \<Rightarrow> gateway \<Rightarrow> int \<times> gateway" where
  "open_serial e cfg g =
     (case serial_open (e_port e) (e_serial_fd e) (Some (cfg_serial_device cfg)) (cfg_baudrate cfg) (gw_port g) of
        (fd, port) \<Rightarrow>
          (fd, put_log e (if fd < 0
                  then (LOG_LEVEL_WARN, ''serial open failed: '' @ cfg_serial_device cfg @ '', running with mock data'')
                  else (LOG_LEVEL_INFO, ''serial open success: '' @ cfg_serial_device cfg))
               (g\<lparr>gw_port := port\<rparr>)))"

definition open_alarm :: "main_env \<Rightarrow> gateway_config \<Rightarrow> gateway \<Rightarrow> int \<times> gateway" where
  "open_alarm e cfg g =
     (case alarm_client_open (Some (cfg_alarm_device cfg)) (e_alarm_fd e) of
        (fd, logs) \<Rightarrow>
          (fd, put_logs e logs (if fd \<ge> 0
                 then g\<lparr>gw_port := (gw_port g)\<lparr>open_fds := fd # open_fds (gw_port g)\<rparr>\<rparr> else g)))"


subsection \<open>The run of the gateway\<close>

definition fmt_ulong :: "ulong \<Rightarrow> string" where
  "fmt_ulong n = fmt_nat (unat n)"

definition heartbeat_text :: "main_env \<Rightarrow> gateway \<Rightarrow> string" where
  "heartbeat_text e g =
     ''heartbeat: db_total='' @ fmt_int (sqlite_store_get_total_count (e_total e) (gw_db g)) @
     '' db_unuploaded='' @ fmt_int (sqlite_store_get_unuploaded_count (e_unuploaded e) (gw_db g)) @
     '' store_written='' @ fmt_ulong (gw_written g) @ '' store_failed='' @ fmt_ulong (gw_failed g) @
     '' uploaded='' @ fmt_ulong (gw_uploaded g) @ '' upload_failed='' @ fmt_ulong (gw_up_failed g)"

text \<open>
  The loop of \<^verbatim>\<open>main\<close>: \<open>n\<close> seconds until a signal (\<^verbatim>\<open>SIGTERM\<close>, 15) sets \<^verbatim>\<open>g_shutdown\<close>; \<open>c\<close> is
  \<^verbatim>\<open>heartbeat_count\<close>.
\<close>
fun heartbeats :: "main_env \<Rightarrow> nat \<Rightarrow> int \<Rightarrow> stmt" where
  "heartbeats e 0 c g = Some (g\<lparr>gw_g_shutdown := signal_handler 15 (gw_g_shutdown g)\<rparr>)"
| "heartbeats e (Suc n) c g =
     (case pause e g of None \<Rightarrow> None
      | Some g1 \<Rightarrow>
          heartbeats e n (c + 1)
            (if c_mod (c + 1) 60 = 0 then put_log e (LOG_LEVEL_INFO, heartbeat_text e g1) g1 else g1))"

definition queue_stats :: "string \<Rightarrow> sample_queue option \<Rightarrow> string" where
  "queue_stats name q = name @ ''pushed='' @ fmt_ulong (sample_queue_push_count q) @
     '' overflow='' @ fmt_ulong (sample_queue_overflow_count q)"

text \<open>The five lines of statistics; \<open>remaining\<close> is the label of the queue lengths.\<close>

definition log_raw_stats :: "main_env \<Rightarrow> stmt" where
  "log_raw_stats e g = log_info e (queue_stats ''raw_queue:    '' (gw_raw g) @
     '' remaining='' @ fmt_int (sample_queue_count (gw_raw g))) g"

definition log_store_stats :: "main_env \<Rightarrow> string \<Rightarrow> stmt" where
  "log_store_stats e label g = log_info e (queue_stats ''store_queue:  '' (gw_store g) @
     label @ fmt_int (sample_queue_count (gw_store g))) g"

definition log_thread_stats :: "main_env \<Rightarrow> string \<Rightarrow> stmt" where
  "log_thread_stats e name g = log_info e (name @ ''written='' @ fmt_ulong (gw_written g) @
     '' failed='' @ fmt_ulong (gw_failed g)) g"

definition log_db_stats :: "main_env \<Rightarrow> string \<Rightarrow> stmt" where
  "log_db_stats e name g = log_info e (name @ ''total_samples='' @
     fmt_int (sqlite_store_get_total_count (e_total e) (gw_db g)) @ '' unuploaded='' @
     fmt_int (sqlite_store_get_unuploaded_count (e_unuploaded e) (gw_db g))) g"

definition log_upload_stats :: "main_env \<Rightarrow> stmt" where
  "log_upload_stats e g = log_info e (''upload_thread: uploaded='' @ fmt_ulong (gw_uploaded g) @
     '' failed='' @ fmt_ulong (gw_up_failed g)) g"

text \<open>The clean-up all paths of \<^verbatim>\<open>main\<close> share from the database on.\<close>
definition release_queues :: "int \<Rightarrow> int \<Rightarrow> stmt list" where
  "release_queues fd afd = [destroy_raw, destroy_store, close_serial fd, close_alarm afd]"

definition upload_enabled :: "gateway_config \<Rightarrow> bool" where
  "upload_enabled cfg \<longleftrightarrow> cfg_upload_enabled cfg \<noteq> 0"

text \<open>From the creation of all threads to the end of \<^verbatim>\<open>main\<close>.\<close>
definition main_run :: "main_env \<Rightarrow> gateway_config \<Rightarrow> int \<Rightarrow> int \<Rightarrow> gateway \<Rightarrow> (int \<times> gateway) option" where
  "main_run e cfg fd afd =
     returning 0
       ([log_info e (''pid='' @ fmt_int (e_pid e)),
         heartbeats e (e_beats e) 0,
         log_info e ''shutting down...'',
         set_shutdown Process, set_shutdown Store, shutdown_raw, shutdown_store,
         join e Collect, join e Process, join e Store,
         set_shutdown Upload]
        @ (if upload_enabled cfg then [join e Upload] else [])
        @ [log_info e ''=== pipeline stopped ==='', log_raw_stats e, log_store_stats e '' remaining='',
           log_thread_stats e ''store_thread:  '', log_db_stats e ''db:            '', log_upload_stats e,
           close_db e]
        @ release_queues fd afd @ [close_log_file])"

text \<open>The creation of the threads.\<close>
definition main_threads :: "main_env \<Rightarrow> gateway_config \<Rightarrow> int \<Rightarrow> int \<Rightarrow> gateway \<Rightarrow> (int \<times> gateway) option" where
  "main_threads e cfg fd afd g0 =
     (let g = put_log e (LOG_LEVEL_INFO, ''=== starting multi-threaded pipeline ==='') g0;
          g1 = start_thread Collect g; g2 = start_thread Process g1; g3 = start_thread Store g2;
          release = close_db e # release_queues fd afd
      in if \<not> e_creates e Collect
         then returning 1 (log_error e ''failed to create collect thread'' # release) g
         else if \<not> e_creates e Process
         then returning 1 ([log_error e ''failed to create processor thread'', set_g_shutdown, shutdown_raw,
                join e Collect] @ release) g1
         else if \<not> e_creates e Store
         then returning 1 ([log_error e ''failed to create store thread'', set_g_shutdown, set_shutdown Process,
                shutdown_raw, shutdown_store, join e Collect, join e Process] @ release) g2
         else if upload_enabled cfg \<and> \<not> e_creates e Upload
         then returning 1 ([log_error e ''failed to create upload thread'', set_g_shutdown, set_shutdown Process,
                set_shutdown Store, shutdown_raw, shutdown_store, join e Collect, join e Process,
                join e Store] @ release) g3
         else main_run e cfg fd afd (if upload_enabled cfg then start_thread Upload g3 else g3))"

text \<open>The queues and the database, then the threads.\<close>
definition main_pipeline :: "main_env \<Rightarrow> gateway_config \<Rightarrow> int \<Rightarrow> int \<Rightarrow> gateway \<Rightarrow> (int \<times> gateway) option" where
  "main_pipeline e cfg fd afd g0 =
     (let g = create_store e (create_raw e g0)
      in if gw_raw g = None \<or> gw_store g = None
         then returning 1 [log_error e ''failed to create queues'', close_serial fd, close_alarm afd] g
         else
           (case open_db e (cfg_db_path cfg) g of (rc, g1) \<Rightarrow>
              if rc \<noteq> 0
              then returning 1 (log_error e (''failed to open database: '' @ cfg_db_path cfg)
                     # release_queues fd afd) g1
              else
                (case create_table e g1 of (rc2, g2) \<Rightarrow>
                   if rc2 \<noteq> 0
                   then returning 1 ([log_error e ''failed to create table'', close_db e]
                          @ release_queues fd afd) g2
                   else main_threads e cfg fd afd g2)))"

text \<open>The log lines about a loaded configuration.\<close>
definition config_texts :: "gateway_config \<Rightarrow> string list" where
  "config_texts c =
     [''config loaded'',
      ''device_id='' @ cfg_device_id c,
      ''sample_period_ms='' @ fmt_int (cfg_sample_period_ms c),
      ''serial_device='' @ cfg_serial_device c,
      ''baudrate='' @ fmt_int (cfg_baudrate c),
      ''modbus_slave_addr='' @ fmt_int (cfg_modbus_slave_addr c),
      ''db_path='' @ cfg_db_path c,
      ''max_cache_count='' @ fmt_int (cfg_max_cache_count c),
      ''upload_enabled='' @ fmt_int (cfg_upload_enabled c),
      ''upload_protocol='' @ cfg_upload_protocol c,
      ''upload_server='' @ cfg_upload_server_host c @ '':'' @ fmt_int (cfg_upload_server_port c),
      ''upload_period_ms='' @ fmt_int (cfg_upload_period_ms c) @ '' batch='' @
        fmt_int (cfg_upload_batch_max c) @ '' retry='' @ fmt_int (cfg_upload_retry_max c),
      ''log_file='' @ cfg_log_file c,
      ''alarm_device='' @ cfg_alarm_device c]"

text \<open>From the log file on: the port, the alarm device, the pipeline.\<close>
definition main_service :: "main_env \<Rightarrow> gateway_config \<Rightarrow> gateway \<Rightarrow> (int \<times> gateway) option" where
  "main_service e cfg g0 =
     (case open_serial e cfg
             (g0\<lparr>gw_logger := logger_open_log_file (e_log_opens e) (Some (cfg_log_file cfg)) (gw_logger g0)\<rparr>) of
        (fd, g1) \<Rightarrow>
          (case open_alarm e cfg g1 of (afd, g2) \<Rightarrow> main_pipeline e cfg fd afd g2))"


subsection \<open>The pipeline test\<close>

definition test_release :: "main_env \<Rightarrow> stmt list" where
  "test_release e = [close_db e, destroy_raw, destroy_store]"

text \<open>The end of \<^verbatim>\<open>run_test\<close>: it sleeps, stops and joins all four threads and reports.\<close>
definition test_run :: "main_env \<Rightarrow> nat \<Rightarrow> gateway \<Rightarrow> (int \<times> gateway) option" where
  "test_run e n =
     returning 0
       (replicate n (pause e)
        @ [set_g_shutdown, set_shutdown Process, set_shutdown Store, set_shutdown Upload, shutdown_raw, shutdown_store,
           join e Collect, join e Process, join e Store, join e Upload,
           log_info e ''=== test complete ==='',
           \<lambda>g. log_info e (queue_stats ''raw_queue:    '' (gw_raw g)) g,
           log_store_stats e '' final_count='', log_thread_stats e ''store_thread: '',
           log_db_stats e ''db:           '', log_upload_stats e]
        @ test_release e)"

definition test_threads :: "main_env \<Rightarrow> nat \<Rightarrow> gateway \<Rightarrow> (int \<times> gateway) option" where
  "test_threads e n g =
     (let g1 = start_thread Collect g; g2 = start_thread Process g1; g3 = start_thread Store g2
      in if \<not> e_creates e Collect
         then returning 1 (log_error e ''failed to create collect thread'' # test_release e) g
         else if \<not> e_creates e Process
         then returning 1 ([log_error e ''failed to create processor thread'', set_g_shutdown, join e Collect]
                @ test_release e) g1
         else if \<not> e_creates e Store
         then returning 1 ([log_error e ''failed to create store thread'', set_g_shutdown, set_shutdown Process,
                shutdown_raw, shutdown_store, join e Collect, join e Process] @ test_release e) g2
         else test_run e n (if e_creates e Upload then start_thread Upload g3
                            else put_log e (LOG_LEVEL_ERROR, ''failed to create upload thread'') g3))"

definition run_test :: "main_env \<Rightarrow> int \<Rightarrow> gateway \<Rightarrow> (int \<times> gateway) option" where
  "run_test e iterations g0 =
     (let g = create_raw e (put_log e (LOG_LEVEL_INFO, ''=== thread pipeline test: '' @ fmt_int iterations
                @ '' iterations ==='') g0)
      in if gw_raw g = None then returning 1 [log_error e ''failed to create raw_queue''] g
         else
           (let g1 = create_store e g
            in if gw_store g1 = None
               then returning 1 [log_error e ''failed to create store_queue'', destroy_raw] g1
               else
                 (case open_db e '':memory:'' g1 of (rc, g2) \<Rightarrow>
                    if rc \<noteq> 0
                    then returning 1 [log_error e ''failed to open in-memory database'', destroy_raw, destroy_store] g2
                    else
                      (case create_table e g2 of (rc2, g3) \<Rightarrow>
                         if rc2 \<noteq> 0 then returning 1 (log_error e ''failed to create table'' # test_release e) g3
                         else test_threads e (nat iterations) g3))))"

subsection \<open>The whole program\<close>

definition print_out :: "string list \<Rightarrow> string list \<Rightarrow> gateway \<Rightarrow> gateway" where
  "print_out out err g = g\<lparr>gw_logger := (gw_logger g)\<lparr>log_stdout := log_stdout (gw_logger g) @ out,
     log_stderr := log_stderr (gw_logger g) @ err\<rparr>\<rparr>"

text \<open>\<open>argv\<close> starts with the name of the program; the result is the exit code.\<close>
definition gateway_main :: "main_env \<Rightarrow> string list \<Rightarrow> gateway \<Rightarrow> (int \<times> gateway) option" where
  "gateway_main e argv g0 =
     (case parse_args (hd argv) (tl argv) DEFAULT_CONFIG_PATH 0 of
        Cli_exit code out err \<Rightarrow> Some (code, print_out out err g0)
      | Cli_run config_path test_iterations \<Rightarrow>
          (let g1 = put_logs e [(LOG_LEVEL_INFO, ''water gateway start (v'' @ WATER_GATEWAY_VERSION @ '')''),
                        (LOG_LEVEL_INFO, ''config_path='' @ config_path)]
                      (g0\<lparr>gw_logger := logger_init (Some ''info'') (gw_logger g0)\<rparr>)
           in (case config_load (Some config_path) (e_config e config_path) (Some default_config) of
                 (rc, cfg, errs) \<Rightarrow>
                   if rc \<noteq> 0
                   then returning 1 [log_error e (''load config failed: '' @ config_path)] (print_out [] errs g1)
                   else
                     (let c = the cfg; g2 = print_out [] errs g1;
                          g3 = put_logs e (map (Pair LOG_LEVEL_INFO) (config_texts c))
                                 (g2\<lparr>gw_logger := logger_init (Some (cfg_log_level c)) (gw_logger g2)\<rparr>)
                      in if test_iterations > 0 then run_test e test_iterations g3 else main_service e c g3))))"


subsection \<open>The control view\<close>

text \<open>
  What matters for the life cycle: resources, descriptors, which handles exist, flags, threads and
  events. Each statement of the program implements a statement on this view, whatever the clock,
  the log and the threads do.
\<close>

record control =
  c_blocks :: int
  c_sync :: int
  c_fds :: "int list"
  c_db :: bool
  c_raw :: bool
  c_store :: bool
  c_g :: bool
  c_told :: "worker \<Rightarrow> bool"
  c_running :: "worker list"
  c_events :: "event list"

definition ctl :: "gateway \<Rightarrow> control" where
  "ctl g = \<lparr>c_blocks = live_blocks (gw_res g), c_sync = live_sync (gw_res g), c_fds = open_fds (gw_port g),
     c_db = (gw_db g \<noteq> None), c_raw = (gw_raw g \<noteq> None), c_store = (gw_store g \<noteq> None),
     c_g = gw_g_shutdown g, c_told = gw_told g, c_running = gw_running g, c_events = gw_events g\<rparr>"

type_synonym cstmt = "control \<Rightarrow> control option"

fun cstmts :: "cstmt list \<Rightarrow> cstmt" where
  "cstmts [] c = Some c"
| "cstmts (a # as) c = (case a c of None \<Rightarrow> None | Some c1 \<Rightarrow> cstmts as c1)"

definition implements :: "stmt \<Rightarrow> cstmt \<Rightarrow> bool" where
  "implements s a \<longleftrightarrow> (\<forall>g. map_option ctl (s g) = a (ctl g))"

definition c_note :: "event \<Rightarrow> control \<Rightarrow> control" where
  "c_note ev c = c\<lparr>c_events := c_events c @ [ev]\<rparr>"

definition c_set_g :: cstmt where
  "c_set_g c = Some (c\<lparr>c_g := True\<rparr>)"

definition c_set :: "worker \<Rightarrow> cstmt" where
  "c_set w c = Some (c_note (Told w) (c\<lparr>c_told := (c_told c)(w := True)\<rparr>))"

definition c_must_stop :: "worker \<Rightarrow> control \<Rightarrow> bool" where
  "c_must_stop w c = (if w = Collect then c_g c else c_told c w)"

definition c_join :: "worker \<Rightarrow> cstmt" where
  "c_join w c = (if w \<in> set (c_running c) \<and> c_must_stop w c
     then Some (c_note (Joined w) (c\<lparr>c_running := remove1 w (c_running c)\<rparr>)) else None)"

definition c_start :: "worker \<Rightarrow> control \<Rightarrow> control" where
  "c_start w c = c_note (Started w) (c\<lparr>c_running := c_running c @ [w]\<rparr>)"

definition c_close_db :: cstmt where
  "c_close_db c = Some (c_note Closed_db (c\<lparr>c_db := False\<rparr>))"

definition c_free :: "bool \<Rightarrow> control \<Rightarrow> control" where
  "c_free held c = c_note Freed_queue (if held then c\<lparr>c_blocks := c_blocks c - 2, c_sync := c_sync c - 3\<rparr> else c)"

definition c_free_raw :: cstmt where
  "c_free_raw c = Some ((c_free (c_raw c) c)\<lparr>c_raw := False\<rparr>)"

definition c_free_store :: cstmt where
  "c_free_store c = Some ((c_free (c_store c) c)\<lparr>c_store := False\<rparr>)"

definition c_close :: "int \<Rightarrow> cstmt" where
  "c_close fd c = Some (if fd \<ge> 0 then c_note Closed_fd (c\<lparr>c_fds := remove1 fd (c_fds c)\<rparr>) else c)"

named_theorems implements_intros

lemma stmts_implement:
  "list_all2 implements ss as \<Longrightarrow> map_option ctl (stmts ss g) = cstmts as (ctl g)"
proof (induction ss as arbitrary: g rule: list_all2_induct)
  case (Cons s ss a as)
  have "map_option ctl (s g) = a (ctl g)" using Cons.hyps(1) by (simp add: implements_def)
  then show ?case using Cons.IH by (cases "s g"; cases "a (ctl g)") auto
qed simp

lemma returning_implements:
  assumes "list_all2 implements ss as" and "cstmts as (ctl g) = Some c"
  shows "\<exists>g'. returning code ss g = Some (code, g') \<and> ctl g' = c"
  using stmts_implement [OF assms(1), of g] assms(2) by (auto simp: returning_def)

lemma ctl_put_log [simp]: "ctl (put_log e m g) = ctl g"
  by (simp add: ctl_def put_log_def)

lemma ctl_put_logs [simp]: "ctl (put_logs e ms g) = ctl g"
  unfolding put_logs_def by (induction ms arbitrary: g) simp_all

lemma ctl_threads_work [simp]: "ctl (threads_work e g) = ctl g"
  by (simp add: ctl_def threads_work_def Let_def split: option.split)

lemma ctl_note_event [simp]: "ctl (note_event ev g) = c_note ev (ctl g)"
  by (simp add: ctl_def note_event_def c_note_def)

lemma ctl_start [simp]: "ctl (start_thread w g) = c_start w (ctl g)"
  by (simp add: start_thread_def c_start_def) (simp add: ctl_def)

lemma implements_log [implements_intros]: "implements (log_error e t) Some" "implements (log_info e t) Some"
  by (simp_all add: implements_def log_error_def log_info_def)

lemma implements_stats [implements_intros]:
  "implements (log_raw_stats e) Some" "implements (log_store_stats e l) Some" "implements (log_thread_stats e l) Some"
  "implements (log_db_stats e l) Some" "implements (log_upload_stats e) Some" "implements (\<lambda>g. log_info e (f g) g) Some"
  by (simp_all add: implements_def log_info_def log_raw_stats_def log_store_stats_def log_thread_stats_def
      log_db_stats_def log_upload_stats_def)

lemma implements_flags [implements_intros]:
  "implements set_g_shutdown c_set_g" "implements (set_shutdown w) (c_set w)"
  "implements shutdown_raw Some" "implements shutdown_store Some" "implements (pause e) Some"
  "implements close_log_file Some"
  by (simp_all add: implements_def set_g_shutdown_def c_set_g_def set_shutdown_def c_set_def shutdown_raw_def
      shutdown_store_def pause_def close_log_file_def) (simp_all add: ctl_def sample_queue_shutdown_def)

lemma implements_join [implements_intros]: "implements (join e w) (c_join w)"
proof -
  have "ctl ((threads_work e g)\<lparr>gw_running := r\<rparr>) = (ctl g)\<lparr>c_running := r\<rparr>" for g r
    using ctl_threads_work [of e g] by (simp add: ctl_def)
  then show ?thesis
    by (simp add: implements_def join_def c_join_def must_stop_def c_must_stop_def) (simp add: ctl_def)
qed

lemma implements_release [implements_intros]:
  "implements (close_db e) c_close_db" "implements destroy_raw c_free_raw" "implements destroy_store c_free_store"
  "implements (close_serial fd) (c_close fd)" "implements (close_alarm fd) (c_close fd)"
proof -
  have "open_fds (snd (serial_close fd p)) = remove1 fd (open_fds p)" if "0 \<le> fd" for p
    using that by (simp add: serial_close_def close_fd_def remove1_idem)
  then show "implements (close_serial fd) (c_close fd)"
    by (simp add: implements_def close_serial_def c_close_def) (simp add: ctl_def)
  show "implements (close_alarm fd) (c_close fd)"
    by (simp add: implements_def close_alarm_def c_close_def alarm_client_close_def) (simp add: ctl_def close_fd_def)
  show "implements (close_db e) c_close_db"
    by (simp add: implements_def close_db_def c_close_db_def) (simp add: ctl_def)
  show "implements destroy_raw c_free_raw" "implements destroy_store c_free_store"
    by (auto simp: implements_def destroy_raw_def destroy_store_def c_free_raw_def c_free_store_def c_free_def
        c_note_def sample_queue_destroy_def ctl_def note_event_def split: option.split)
qed

lemma implements_heartbeats [implements_intros]: "implements (heartbeats e n c) c_set_g"
proof -
  have "map_option ctl (heartbeats e n c g) = c_set_g (ctl g)" for g
  proof (induction n arbitrary: c g)
    case 0
    show ?case by (simp add: c_set_g_def signal_handler_def) (simp add: ctl_def)
  next
    case (Suc n)
    show ?case by (simp add: pause_def Suc.IH)
  qed
  then show ?thesis by (simp add: implements_def)
qed


text \<open>Acquiring, in the control view.\<close>

definition alloc_ok :: "bool \<times> bool \<Rightarrow> bool" where
  "alloc_ok p \<longleftrightarrow> fst p \<and> snd p"

definition c_got_queue :: "control \<Rightarrow> control" where
  "c_got_queue c = c\<lparr>c_blocks := c_blocks c + 2, c_sync := c_sync c + 3\<rparr>"

lemma ctl_create_raw:
  "ctl (create_raw e g) = (if alloc_ok (e_alloc_raw e) then (c_got_queue (ctl g))\<lparr>c_raw := True\<rparr>
     else (ctl g)\<lparr>c_raw := False\<rparr>)"
  by (simp add: create_raw_def sample_queue_create_def DEFAULT_QUEUE_CAPACITY_def alloc_ok_def c_got_queue_def ctl_def)

lemma ctl_create_store:
  "ctl (create_store e g) = (if alloc_ok (e_alloc_store e) then (c_got_queue (ctl g))\<lparr>c_store := True\<rparr>
     else (ctl g)\<lparr>c_store := False\<rparr>)"
  by (simp add: create_store_def sample_queue_create_def DEFAULT_QUEUE_CAPACITY_def alloc_ok_def c_got_queue_def ctl_def)

lemma ctl_open_db:
  assumes "open_db e path g = (rc, g')"
  shows "ctl g' = (ctl g)\<lparr>c_db := (rc = 0)\<rparr>"
proof -
  have d: "ctl (g\<lparr>gw_db := d\<rparr>) = (ctl g)\<lparr>c_db := (d \<noteq> None)\<rparr>" for d by (simp add: ctl_def)
  show ?thesis
    using assms by (auto simp: open_db_def sqlite_store_open_def Let_def d split: sum.splits)
qed

lemma ctl_create_table:
  assumes "create_table e g = (rc, g')" and "c_db (ctl g)"
  shows "ctl g' = ctl g"
proof -
  obtain d0 where "gw_db g = Some d0" using assms(2) by (auto simp: ctl_def)
  then obtain d logs where "g' = put_logs e logs (g\<lparr>gw_db := Some d\<rparr>)"
    using assms(1)
    by (auto simp: create_table_def sqlite_store_create_table_def Let_def split: prod.splits if_splits)
  then show ?thesis using assms(2) by (simp add: ctl_def [of "g\<lparr>gw_db := _\<rparr>"]) (simp add: ctl_def)
qed

definition c_opened :: "int \<Rightarrow> control \<Rightarrow> control" where
  "c_opened fd c = (if fd \<ge> 0 then c\<lparr>c_fds := fd # c_fds c\<rparr> else c)"

lemma serial_open_fds:
  "serial_open env fd dev rate p = (r, p') \<Longrightarrow> open_fds p' = (if r \<ge> 0 then r # open_fds p else open_fds p)"
  by (auto simp: serial_open_def close_fd_def Let_def split: option.splits prod.splits if_splits)

lemma ctl_open_serial:
  assumes "open_serial e cfg g = (fd, g')"
  shows "ctl g' = c_opened fd (ctl g)"
proof -
  obtain p where p: "serial_open (e_port e) (e_serial_fd e) (Some (cfg_serial_device cfg)) (cfg_baudrate cfg) (gw_port g)
      = (fd, p)" and g': "ctl g' = ctl (g\<lparr>gw_port := p\<rparr>)"
    using assms by (auto simp: open_serial_def split: prod.splits)
  have "ctl (g\<lparr>gw_port := p\<rparr>) = c_opened fd (ctl g)"
    using serial_open_fds [OF p] by (simp add: c_opened_def ctl_def)
  with g' show ?thesis by simp
qed

lemma ctl_open_alarm:
  assumes "open_alarm e cfg g = (fd, g')"
  shows "ctl g' = c_opened fd (ctl g)"
proof -
  have "ctl (g\<lparr>gw_port := (gw_port g)\<lparr>open_fds := fd # open_fds (gw_port g)\<rparr>\<rparr>) = (ctl g)\<lparr>c_fds := fd # c_fds (ctl g)\<rparr>"
    by (simp add: ctl_def)
  with assms show ?thesis by (auto simp: open_alarm_def c_opened_def split: prod.splits if_splits)
qed


subsection \<open>The life cycle\<close>

text \<open>
  Events in order: threads start once and are joined after they started, and the database, the
  queues and the descriptors are released only while no thread runs; at the end none does.
\<close>
fun orderly :: "worker list \<Rightarrow> event list \<Rightarrow> bool" where
  "orderly ws [] = (ws = [])"
| "orderly ws (ev # evs) =
     (case ev of
        Started w \<Rightarrow> w \<notin> set ws \<and> orderly (w # ws) evs
      | Joined w \<Rightarrow> w \<in> set ws \<and> orderly (remove1 w ws) evs
      | Told w \<Rightarrow> orderly ws evs
      | _ \<Rightarrow> ws = [] \<and> orderly ws evs)"

text \<open>Of two events, the first comes before the second.\<close>
definition before :: "event \<Rightarrow> event \<Rightarrow> event list \<Rightarrow> bool" where
  "before x y evs \<longleftrightarrow> (x \<in> set (takeWhile (\<lambda>z. z \<noteq> y) evs))"

text \<open>The start of the pipeline with everything acquired, and its end with everything released.\<close>

definition c_held :: "int \<Rightarrow> int \<Rightarrow> int list \<Rightarrow> int \<Rightarrow> int \<Rightarrow> control \<Rightarrow> bool" where
  "c_held b s fds fd afd c \<longleftrightarrow> c_blocks c = b + 4 \<and> c_sync c = s + 6
     \<and> c_fds c = (if afd \<ge> 0 then [afd] else []) @ (if fd \<ge> 0 then [fd] else []) @ fds
     \<and> c_db c \<and> c_raw c \<and> c_store c"

definition c_stopped :: "control \<Rightarrow> bool" where
  "c_stopped c \<longleftrightarrow> c_running c = [] \<and> orderly [] (c_events c)"

definition c_ready :: "int \<Rightarrow> int \<Rightarrow> int list \<Rightarrow> int \<Rightarrow> int \<Rightarrow> control \<Rightarrow> bool" where
  "c_ready b s fds fd afd c \<longleftrightarrow> c_held b s fds fd afd c \<and> c_running c = [] \<and> c_events c = []"

definition c_released :: "int \<Rightarrow> int \<Rightarrow> int list \<Rightarrow> control \<Rightarrow> bool" where
  "c_released b s fds c \<longleftrightarrow> c_blocks c = b \<and> c_sync c = s \<and> c_fds c = fds \<and> \<not> c_db c \<and> \<not> c_raw c \<and> \<not> c_store c
     \<and> c_stopped c"

lemmas c_defs = c_set_g_def c_set_def c_join_def c_must_stop_def c_close_db_def c_free_def c_free_raw_def
  c_free_store_def c_close_def c_note_def c_start_def

definition c_ends :: "(control \<Rightarrow> bool) \<Rightarrow> control option \<Rightarrow> bool" where
  "c_ends P r \<longleftrightarrow> (\<exists>c. r = Some c \<and> P c)"

lemma c_ends_Some [simp]: "c_ends P (Some c) = P c"
  by (simp add: c_ends_def)

lemma path_ends:
  assumes "list_all2 implements ss as" and "c_ends P (cstmts as (ctl g))"
  shows "\<exists>g'. returning code ss g = Some (code, g') \<and> P (ctl g')"
  using returning_implements [OF assms(1)] assms(2) unfolding c_ends_def by blast

definition c_release :: "int \<Rightarrow> int \<Rightarrow> cstmt list" where
  "c_release fd afd = [c_free_raw, c_free_store, c_close fd, c_close afd]"

lemma cstmts_append: "cstmts (as @ bs) c = (case cstmts as c of None \<Rightarrow> None | Some c1 \<Rightarrow> cstmts bs c1)"
  by (induction as arbitrary: c) (simp_all split: option.split)

lemma orderly_append: "orderly ws xs \<Longrightarrow> orderly [] ys \<Longrightarrow> orderly ws (xs @ ys)"
  by (induction ws xs rule: orderly.induct) (auto split: event.splits)

text \<open>The release at the end of a path: everything that is held goes, in an orderly way.\<close>
lemma release_ends:
  assumes "c_held b s fds fd afd c" and "c_stopped c"
  shows "\<exists>c' evs. cstmts (c_close_db # c_release fd afd) c = Some c' \<and> c_released b s fds c'
    \<and> c_events c' = c_events c @ evs"
proof -
  let ?evs = "[Closed_db, Freed_queue, Freed_queue] @ (if fd \<ge> 0 then [Closed_fd] else [])
      @ (if afd \<ge> 0 then [Closed_fd] else [])"
  have "c_ends (\<lambda>c'. c_blocks c' = b \<and> c_sync c' = s \<and> c_fds c' = fds \<and> \<not> c_db c' \<and> \<not> c_raw c' \<and> \<not> c_store c'
      \<and> c_running c' = c_running c \<and> c_events c' = c_events c @ ?evs) (cstmts (c_close_db # c_release fd afd) c)"
    using assms(1)
    by (cases "fd < 0"; cases "afd < 0") (simp_all add: c_held_def c_release_def c_defs)
  moreover have "orderly [] ?evs" by simp
  ultimately show ?thesis
    using assms(2) by (auto simp: c_ends_def c_released_def c_stopped_def orderly_append)
qed

lemma main_path:
  assumes "list_all2 implements ss as" and "c_ends (\<lambda>c. c_held b s fds fd afd c \<and> c_stopped c) (cstmts as (ctl g))"
  shows "\<exists>g'. returning code (ss @ close_db e # release_queues fd afd) g = Some (code, g')
    \<and> c_released b s fds (ctl g')"
proof (rule path_ends)
  show "list_all2 implements (ss @ close_db e # release_queues fd afd) (as @ c_close_db # c_release fd afd)"
    using assms(1) by (intro list_all2_appendI) (simp_all add: implements_intros release_queues_def c_release_def)
  show "c_ends (c_released b s fds) (cstmts (as @ c_close_db # c_release fd afd) (ctl g))"
    using assms(2) release_ends unfolding c_ends_def cstmts_append by fastforce
qed

lemma main_run_ends:
  assumes "c_ready b s fds fd afd c"
    and "ctl g = (let c3 = c_start Store (c_start Process (c_start Collect c))
                  in if upload_enabled cfg then c_start Upload c3 else c3)"
  shows "\<exists>g'. main_run e cfg fd afd g = Some (0, g') \<and> c_released b s fds (ctl g')
    \<and> before (Joined Store) (Told Upload) (c_events (ctl g'))"
proof -
  let ?up = "if upload_enabled cfg then [c_join Upload] else []"
  let ?as = "[Some, c_set_g, Some, c_set Process, c_set Store, Some, Some, c_join Collect, c_join Process, c_join Store,
        c_set Upload] @ ?up @ [Some, Some, Some, Some, Some, Some]"
  obtain c1 where c1: "cstmts ?as (ctl g) = Some c1" "c_held b s fds fd afd c1" "c_stopped c1"
    "\<forall>evs. before (Joined Store) (Told Upload) (c_events c1 @ evs)"
    using assms
    by (cases "upload_enabled cfg") (simp_all add: c_ready_def c_held_def c_stopped_def c_defs before_def)
  obtain c2 evs where c2: "cstmts (c_close_db # c_release fd afd) c1 = Some c2" "c_released b s fds c2"
    "c_events c2 = c_events c1 @ evs" using release_ends [OF c1(2,3)] by blast
  have "cstmts (?as @ (c_close_db # c_release fd afd) @ [Some]) (ctl g) = Some c2"
    using c2(1) by (simp only: cstmts_append [of ?as] c1(1) option.case
        cstmts_append [of "c_close_db # c_release fd afd"]) simp
  then have "c_ends (\<lambda>c. c_released b s fds c \<and> before (Joined Store) (Told Upload) (c_events c))
      (cstmts (?as @ (c_close_db # c_release fd afd) @ [Some]) (ctl g))"
    using c1(4) c2(2,3) by (simp only: c_ends_Some)
  then show ?thesis
    unfolding main_run_def
    by (rule path_ends [rotated]) (simp add: implements_intros release_queues_def c_release_def)
qed

lemma main_threads_ends:
  assumes "c_ready b s fds fd afd (ctl g0)"
  shows "\<exists>code g'. main_threads e cfg fd afd g0 = Some (code, g') \<and> c_released b s fds (ctl g')
    \<and> (code = 0 \<longleftrightarrow> e_creates e Collect \<and> e_creates e Process \<and> e_creates e Store
          \<and> (upload_enabled cfg \<longrightarrow> e_creates e Upload))
    \<and> (code = 0 \<longrightarrow> before (Joined Store) (Told Upload) (c_events (ctl g')))"
proof -
  let ?g = "put_log e (LOG_LEVEL_INFO, ''=== starting multi-threaded pipeline ==='') g0"
  let ?g1 = "start_thread Collect ?g" let ?g2 = "start_thread Process ?g1" let ?g3 = "start_thread Store ?g2"
  let ?rel = "close_db e # release_queues fd afd"
  let ?c = "ctl g0"
  note rel = assms [unfolded c_ready_def]
  have p0: "\<exists>g'. returning 1 ([log_error e ''failed to create collect thread''] @ ?rel) ?g = Some (1, g')
      \<and> c_released b s fds (ctl g')"
    by (rule main_path [where as = "[Some]"])
      (use rel in \<open>simp_all add: implements_intros c_held_def c_stopped_def c_defs\<close>)
  have p1: "\<exists>g'. returning 1 ([log_error e ''failed to create processor thread'', set_g_shutdown, shutdown_raw,
                join e Collect] @ ?rel) ?g1 = Some (1, g') \<and> c_released b s fds (ctl g')"
    by (rule main_path [where as = "[Some, c_set_g, Some, c_join Collect]"])
      (use rel in \<open>simp_all add: implements_intros c_held_def c_stopped_def c_defs\<close>)
  have p2: "\<exists>g'. returning 1 ([log_error e ''failed to create store thread'', set_g_shutdown, set_shutdown Process,
                shutdown_raw, shutdown_store, join e Collect, join e Process] @ ?rel) ?g2 = Some (1, g')
      \<and> c_released b s fds (ctl g')"
    by (rule main_path [where as = "[Some, c_set_g, c_set Process, Some, Some, c_join Collect, c_join Process]"])
      (use rel in \<open>simp_all add: implements_intros c_held_def c_stopped_def c_defs\<close>)
  have p3: "\<exists>g'. returning 1 ([log_error e ''failed to create upload thread'', set_g_shutdown, set_shutdown Process,
                set_shutdown Store, shutdown_raw, shutdown_store, join e Collect, join e Process,
                join e Store] @ ?rel) ?g3 = Some (1, g') \<and> c_released b s fds (ctl g')"
    by (rule main_path [where as = "[Some, c_set_g, c_set Process, c_set Store, Some, Some, c_join Collect,
          c_join Process, c_join Store]"])
      (use rel in \<open>simp_all add: implements_intros c_held_def c_stopped_def c_defs\<close>)
  have "\<exists>g'. main_run e cfg fd afd (if upload_enabled cfg then start_thread Upload ?g3 else ?g3) = Some (0, g')
      \<and> c_released b s fds (ctl g') \<and> before (Joined Store) (Told Upload) (c_events (ctl g'))"
    by (rule main_run_ends [OF assms]) (simp add: Let_def)
  with p0 p1 p2 p3 show ?thesis
    unfolding main_threads_def Let_def
    by (cases "e_creates e Collect"; cases "e_creates e Process"; cases "e_creates e Store";
        cases "upload_enabled cfg \<and> \<not> e_creates e Upload") auto
qed


lemma c_opened_fields [simp]:
  "c_blocks (c_opened fd c) = c_blocks c" "c_sync (c_opened fd c) = c_sync c" "c_db (c_opened fd c) = c_db c"
  "c_raw (c_opened fd c) = c_raw c" "c_store (c_opened fd c) = c_store c" "c_running (c_opened fd c) = c_running c"
  "c_events (c_opened fd c) = c_events c" "c_g (c_opened fd c) = c_g c" "c_told (c_opened fd c) = c_told c"
  "c_fds (c_opened fd c) = (if fd \<ge> 0 then [fd] else []) @ c_fds c"
  by (simp_all add: c_opened_def)

text \<open>A fresh process: it owns nothing yet.\<close>
definition c_fresh :: "control \<Rightarrow> bool" where
  "c_fresh c \<longleftrightarrow> \<not> c_db c \<and> \<not> c_raw c \<and> \<not> c_store c \<and> c_running c = [] \<and> c_events c = []"

text \<open>The end of \<^verbatim>\<open>main\<close>, with the queue that is left behind if only one could be created.\<close>
definition c_main_end :: "main_env \<Rightarrow> control \<Rightarrow> control \<Rightarrow> bool" where
  "c_main_end e c0 c \<longleftrightarrow> c_fds c = c_fds c0 \<and> \<not> c_db c \<and> c_stopped c
     \<and> c_blocks c = c_blocks c0 + (if alloc_ok (e_alloc_raw e) \<noteq> alloc_ok (e_alloc_store e) then 2 else 0)
     \<and> c_sync c = c_sync c0 + (if alloc_ok (e_alloc_raw e) \<noteq> alloc_ok (e_alloc_store e) then 3 else 0)"

lemma main_pipeline_ends:
  assumes "ctl g0 = c_opened afd (c_opened fd c0)" and "c_fresh c0"
  shows "\<exists>code g'. main_pipeline e cfg fd afd g0 = Some (code, g') \<and> c_main_end e c0 (ctl g')
    \<and> (code = 0 \<longrightarrow> before (Joined Store) (Told Upload) (c_events (ctl g')))
    \<and> (alloc_ok (e_alloc_raw e) \<noteq> alloc_ok (e_alloc_store e) \<longrightarrow> code = 1)"
proof -
  let ?g = "create_store e (create_raw e g0)"
  have g: "ctl ?g = (let c1 = (if alloc_ok (e_alloc_raw e) then (c_got_queue (ctl g0))\<lparr>c_raw := True\<rparr>
      else (ctl g0)\<lparr>c_raw := False\<rparr>) in if alloc_ok (e_alloc_store e) then (c_got_queue c1)\<lparr>c_store := True\<rparr>
      else c1\<lparr>c_store := False\<rparr>)"
    by (simp add: ctl_create_store ctl_create_raw Let_def)
  have some: "gw_raw ?g = None \<longleftrightarrow> \<not> c_raw (ctl ?g)" "gw_store ?g = None \<longleftrightarrow> \<not> c_store (ctl ?g)"
    by (simp_all add: ctl_def)
  show ?thesis
  proof (cases "alloc_ok (e_alloc_raw e) \<and> alloc_ok (e_alloc_store e)")
    case False
    then have q: "gw_raw ?g = None \<or> gw_store ?g = None"
      unfolding some g using assms by (auto simp: Let_def c_fresh_def c_got_queue_def)
    have "\<exists>g'. returning 1 [log_error e ''failed to create queues'', close_serial fd, close_alarm afd] ?g = Some (1, g')
        \<and> c_main_end e c0 (ctl g')"
      by (rule path_ends [where as = "[Some, c_close fd, c_close afd]"])
        (use False assms g in \<open>cases "fd < 0"; cases "afd < 0"; cases "alloc_ok (e_alloc_raw e)";
          simp add: implements_intros c_main_end_def c_fresh_def c_stopped_def c_defs c_got_queue_def Let_def\<close>)+
    with q show ?thesis unfolding main_pipeline_def Let_def by auto
  next
    case True
    then have q: "\<not> (gw_raw ?g = None \<or> gw_store ?g = None)"
      unfolding some g using assms by (auto simp: Let_def c_fresh_def c_got_queue_def)
    have h: "c_held (c_blocks c0) (c_sync c0) (c_fds c0) fd afd ((ctl ?g)\<lparr>c_db := True\<rparr>)"
      "c_running (ctl ?g) = []" "c_events (ctl ?g) = []"
      using True assms g by (simp_all add: c_held_def c_fresh_def c_got_queue_def)
    obtain rc g1 where o1: "open_db e (cfg_db_path cfg) ?g = (rc, g1)" by (cases "open_db e (cfg_db_path cfg) ?g")
    obtain rc2 g2 where o2: "create_table e g1 = (rc2, g2)" by (cases "create_table e g1")
    note c1 = ctl_open_db [OF o1]
    have rel: "c_main_end e c0 c" if "c_released (c_blocks c0) (c_sync c0) (c_fds c0) c" for c
      using that True by (simp add: c_main_end_def c_released_def)
    show ?thesis
    proof (cases "rc = 0")
      case False
      have "\<exists>g'. returning 1 (log_error e (''failed to open database: '' @ cfg_db_path cfg)
                     # release_queues fd afd) g1 = Some (1, g') \<and> c_main_end e c0 (ctl g')"
        by (rule path_ends [where as = "Some # c_release fd afd"])
          (use False True h c1 in \<open>cases "fd < 0"; cases "afd < 0"; simp add: implements_intros release_queues_def
            c_release_def c_main_end_def c_held_def c_stopped_def c_defs\<close>)+
      with q o1 False True show ?thesis unfolding main_pipeline_def Let_def by auto
    next
      case opened: True
      then have g2: "ctl g2 = (ctl ?g)\<lparr>c_db := True\<rparr>" using ctl_create_table [OF o2] c1 by simp
      have r: "\<exists>g'. returning 1 ([log_error e ''failed to create table''] @ close_db e # release_queues fd afd) g2
          = Some (1, g') \<and> c_released (c_blocks c0) (c_sync c0) (c_fds c0) (ctl g')"
        by (rule main_path [where as = "[Some]"]) (use h g2 in \<open>simp_all add: implements_intros c_stopped_def\<close>)
      have "c_ready (c_blocks c0) (c_sync c0) (c_fds c0) fd afd (ctl g2)"
        using h unfolding g2 by (simp add: c_ready_def)
      then obtain code g' where t: "main_threads e cfg fd afd g2 = Some (code, g')"
        "c_released (c_blocks c0) (c_sync c0) (c_fds c0) (ctl g')"
        "code = 0 \<longrightarrow> before (Joined Store) (Told Upload) (c_events (ctl g'))"
        using main_threads_ends by blast
      have "main_pipeline e cfg fd afd g0 = (if rc2 \<noteq> 0
          then returning 1 ([log_error e ''failed to create table''] @ close_db e # release_queues fd afd) g2
          else main_threads e cfg fd afd g2)"
        by (simp only: main_pipeline_def Let_def q o1 o2 prod.case opened if_False simp_thms append.simps)
      with r t rel True show ?thesis by (cases "rc2 = 0") auto
    qed
  qed
qed


text \<open>A process that owns nothing of the pipeline yet.\<close>
definition fresh :: "gateway \<Rightarrow> bool" where
  "fresh g \<longleftrightarrow> gw_db g = None \<and> gw_raw g = None \<and> gw_store g = None \<and> gw_running g = [] \<and> gw_events g = []"

lemma ctl_fields:
  "c_blocks (ctl g) = live_blocks (gw_res g)" "c_sync (ctl g) = live_sync (gw_res g)"
  "c_fds (ctl g) = open_fds (gw_port g)" "c_db (ctl g) = (gw_db g \<noteq> None)" "c_raw (ctl g) = (gw_raw g \<noteq> None)"
  "c_store (ctl g) = (gw_store g \<noteq> None)" "c_running (ctl g) = gw_running g" "c_events (ctl g) = gw_events g"
  by (simp_all add: ctl_def)

lemma ctl_logger [simp]: "ctl (g\<lparr>gw_logger := l\<rparr>) = ctl g"
  by (simp add: ctl_def)

lemma fresh_ctl: "fresh g \<longleftrightarrow> c_fresh (ctl g)"
  by (auto simp: fresh_def c_fresh_def ctl_fields)

lemma main_service_ends:
  assumes "fresh g0"
  shows "\<exists>code g. main_service e cfg g0 = Some (code, g) \<and> gw_running g = [] \<and> gw_db g = None
    \<and> open_fds (gw_port g) = open_fds (gw_port g0) \<and> orderly [] (gw_events g)
    \<and> (if alloc_ok (e_alloc_raw e) = alloc_ok (e_alloc_store e)
       then live_blocks (gw_res g) = live_blocks (gw_res g0) \<and> live_sync (gw_res g) = live_sync (gw_res g0)
       else code = 1 \<and> live_blocks (gw_res g) = live_blocks (gw_res g0) + 2
            \<and> live_sync (gw_res g) = live_sync (gw_res g0) + 3)
    \<and> (code = 0 \<longrightarrow> before (Joined Store) (Told Upload) (gw_events g))"
proof -
  let ?g0 = "g0\<lparr>gw_logger := logger_open_log_file (e_log_opens e) (Some (cfg_log_file cfg)) (gw_logger g0)\<rparr>"
  obtain fd g1 where o1: "open_serial e cfg ?g0 = (fd, g1)" by (cases "open_serial e cfg ?g0")
  obtain afd g2 where o2: "open_alarm e cfg g1 = (afd, g2)" by (cases "open_alarm e cfg g1")
  have "ctl g2 = c_opened afd (c_opened fd (ctl g0))"
    using ctl_open_serial [OF o1] ctl_open_alarm [OF o2] by simp
  from main_pipeline_ends [OF this assms [unfolded fresh_ctl], of e cfg]
  obtain code g where r: "main_pipeline e cfg fd afd g2 = Some (code, g)" "c_main_end e (ctl g0) (ctl g)"
    "code = 0 \<longrightarrow> before (Joined Store) (Told Upload) (c_events (ctl g))"
    "alloc_ok (e_alloc_raw e) \<noteq> alloc_ok (e_alloc_store e) \<longrightarrow> code = 1" by blast
  have "main_service e cfg g0 = Some (code, g)" by (simp add: main_service_def o1 o2 r(1))
  with r(2-4) show ?thesis
    by (auto simp: c_main_end_def c_stopped_def ctl_fields)
qed



lemma test_release_implement: "list_all2 implements (test_release e) [c_close_db, c_free_raw, c_free_store]"
  by (simp add: test_release_def implements_intros)

text \<open>The pipeline test holds no descriptors; its release is that of \<^verbatim>\<open>main\<close> without them.\<close>
lemma test_path:
  assumes "list_all2 implements ss as"
    and "c_ends (\<lambda>c. c_held b s fds (-1) (-1) c \<and> c_stopped c) (cstmts as (ctl g))"
  shows "\<exists>g'. returning code (ss @ test_release e) g = Some (code, g') \<and> c_released b s fds (ctl g')"
proof (rule path_ends)
  show "list_all2 implements (ss @ test_release e) (as @ [c_close_db, c_free_raw, c_free_store])"
    using assms(1) test_release_implement by (intro list_all2_appendI)
  have "c_ends (c_released b s fds) (cstmts [c_close_db, c_free_raw, c_free_store] c)"
    if "c_held b s fds (-1) (-1) c" "c_stopped c" for c
    using that by (simp add: c_held_def c_released_def c_stopped_def c_defs orderly_append)
  then show "c_ends (c_released b s fds) (cstmts (as @ [c_close_db, c_free_raw, c_free_store]) (ctl g))"
    using assms(2) unfolding c_ends_def cstmts_append by fastforce
qed

lemma cstmts_pauses: "cstmts (replicate n Some @ as) c = cstmts as c"
  by (induction n) simp_all

lemma test_run_ends:
  assumes "c_held b s fds (-1) (-1) c" and "c_running c = []" and "c_events c = []"
    and "ctl g = (let c3 = c_start Store (c_start Process (c_start Collect c))
                  in if e_creates e Upload then c_start Upload c3 else c3)"
  shows "if e_creates e Upload then \<exists>g'. test_run e n g = Some (0, g') \<and> c_released b s fds (ctl g')
    else test_run e n g = None"
proof -
  let ?as = "replicate n Some @ [c_set_g, c_set Process, c_set Store, c_set Upload, Some, Some,
      c_join Collect, c_join Process, c_join Store, c_join Upload, Some, Some, Some, Some, Some, Some]"
  let ?ss = "replicate n (pause e)
        @ [set_g_shutdown, set_shutdown Process, set_shutdown Store, set_shutdown Upload, shutdown_raw, shutdown_store,
           join e Collect, join e Process, join e Store, join e Upload,
           log_info e ''=== test complete ==='',
           \<lambda>g. log_info e (queue_stats ''raw_queue:    '' (gw_raw g)) g,
           log_store_stats e '' final_count='', log_thread_stats e ''store_thread: '',
           log_db_stats e ''db:           '', log_upload_stats e]"
  have "list_all2 implements (replicate n (pause e)) (replicate n Some)"
    by (simp add: list_all2_conv_all_nth implements_intros)
  then have i: "list_all2 implements ?ss ?as"
    by (rule list_all2_appendI) (simp add: implements_intros)
  show ?thesis
  proof (cases "e_creates e Upload")
    case True
    have "c_ends (\<lambda>c. c_held b s fds (-1) (-1) c \<and> c_stopped c) (cstmts ?as (ctl g))"
      unfolding cstmts_pauses using assms True by (simp add: c_held_def c_stopped_def c_defs)
    from test_path [OF i this] True show ?thesis by (simp add: test_run_def)
  next
    case False
    have "cstmts (?as @ [c_close_db, c_free_raw, c_free_store]) (ctl g) = None"
      unfolding append_assoc cstmts_pauses using assms False by (simp add: c_held_def c_defs)
    moreover have "list_all2 implements (?ss @ test_release e) (?as @ [c_close_db, c_free_raw, c_free_store])"
      using i test_release_implement by (rule list_all2_appendI)
    ultimately have "map_option ctl (stmts (?ss @ test_release e) g) = None" by (simp only: stmts_implement)
    with False show ?thesis by (simp add: test_run_def returning_def)
  qed
qed


lemma test_threads_ends:
  assumes "c_held b s fds (-1) (-1) (ctl g)" and "c_running (ctl g) = []" and "c_events (ctl g) = []"
  shows "case test_threads e n g of
     None \<Rightarrow> \<not> e_creates e Upload
   | Some (code, g') \<Rightarrow> c_released b s fds (ctl g') \<and> (code = 0 \<longrightarrow> e_creates e Upload)"
proof -
  let ?g1 = "start_thread Collect g" let ?g2 = "start_thread Process ?g1" let ?g3 = "start_thread Store ?g2"
  note held = assms [unfolded c_held_def]
  have p0: "\<exists>g'. returning 1 ([log_error e ''failed to create collect thread''] @ test_release e) g = Some (1, g')
      \<and> c_released b s fds (ctl g')"
    by (rule test_path [where as = "[Some]"])
      (use held in \<open>simp_all add: implements_intros c_held_def c_stopped_def c_defs\<close>)
  have p1: "\<exists>g'. returning 1 ([log_error e ''failed to create processor thread'', set_g_shutdown, join e Collect]
                @ test_release e) ?g1 = Some (1, g') \<and> c_released b s fds (ctl g')"
    by (rule test_path [where as = "[Some, c_set_g, c_join Collect]"])
      (use held in \<open>simp_all add: implements_intros c_held_def c_stopped_def c_defs\<close>)
  have p2: "\<exists>g'. returning 1 ([log_error e ''failed to create store thread'', set_g_shutdown, set_shutdown Process,
                shutdown_raw, shutdown_store, join e Collect, join e Process] @ test_release e) ?g2 = Some (1, g')
      \<and> c_released b s fds (ctl g')"
    by (rule test_path [where as = "[Some, c_set_g, c_set Process, Some, Some, c_join Collect, c_join Process]"])
      (use held in \<open>simp_all add: implements_intros c_held_def c_stopped_def c_defs\<close>)
  have p3: "if e_creates e Upload then \<exists>g'. test_run e n (if e_creates e Upload then start_thread Upload ?g3
         else put_log e (LOG_LEVEL_ERROR, ''failed to create upload thread'') ?g3) = Some (0, g') \<and> c_released b s fds (ctl g')
    else test_run e n (if e_creates e Upload then start_thread Upload ?g3
         else put_log e (LOG_LEVEL_ERROR, ''failed to create upload thread'') ?g3) = None"
    by (rule test_run_ends [OF assms]) (simp add: Let_def)
  show ?thesis
    using p0 p1 p2 p3 unfolding test_threads_def Let_def
    by (cases "e_creates e Collect"; cases "e_creates e Process"; cases "e_creates e Store"; cases "e_creates e Upload")
      auto
qed

lemma run_test_ends:
  assumes "fresh g0"
  shows "case run_test e n g0 of
     None \<Rightarrow> \<not> e_creates e Upload
   | Some (code, g) \<Rightarrow> gw_running g = [] \<and> gw_db g = None \<and> orderly [] (gw_events g)
       \<and> open_fds (gw_port g) = open_fds (gw_port g0) \<and> live_blocks (gw_res g) = live_blocks (gw_res g0)
       \<and> live_sync (gw_res g) = live_sync (gw_res g0) \<and> (code = 0 \<longrightarrow> e_creates e Upload)"
proof -
  let ?b = "live_blocks (gw_res g0)" and ?s = "live_sync (gw_res g0)" and ?fds = "open_fds (gw_port g0)"
  let ?l = "put_log e (LOG_LEVEL_INFO, ''=== thread pipeline test: '' @ fmt_int n @ '' iterations ==='') g0"
  let ?g = "create_raw e ?l" let ?g1 = "create_store e ?g"
  have f: "c_fresh (ctl g0)" using assms by (simp add: fresh_ctl)
  have q: "gw_raw ?g = None \<longleftrightarrow> \<not> alloc_ok (e_alloc_raw e)" "gw_store ?g1 = None \<longleftrightarrow> \<not> alloc_ok (e_alloc_store e)"
    using ctl_create_raw [of e ?l] ctl_create_store [of e ?g] ctl_fields(5) [of ?g] ctl_fields(6) [of ?g1] by auto
  have out: ?thesis if "run_test e n g0 = Some (code, g)" "code \<noteq> 0" "c_released ?b ?s ?fds (ctl g)" for code g
    using that by (simp add: c_released_def c_stopped_def ctl_fields)
  have e0: "\<exists>g'. returning 1 [log_error e ''failed to create raw_queue''] ?g = Some (1, g') \<and> c_released ?b ?s ?fds (ctl g')"
    if "\<not> alloc_ok (e_alloc_raw e)"
    by (rule path_ends [where as = "[Some]"])
      (use that f in \<open>simp_all add: implements_intros ctl_create_raw c_released_def c_fresh_def c_stopped_def ctl_fields\<close>)
  have e1: "\<exists>g'. returning 1 [log_error e ''failed to create store_queue'', destroy_raw] ?g1 = Some (1, g')
      \<and> c_released ?b ?s ?fds (ctl g')"
    if "alloc_ok (e_alloc_raw e)" "\<not> alloc_ok (e_alloc_store e)"
    by (rule path_ends [where as = "[Some, c_free_raw]"])
      (use that f in \<open>simp_all add: implements_intros ctl_create_raw ctl_create_store c_released_def c_fresh_def
        c_stopped_def c_got_queue_def c_defs ctl_fields\<close>)
  show ?thesis
  proof (cases "alloc_ok (e_alloc_raw e) \<and> alloc_ok (e_alloc_store e)")
    case False
    with e0 e1 q out show ?thesis by (auto simp: run_test_def Let_def)
  next
    case True
    obtain rc g2 where o1: "open_db e '':memory:'' ?g1 = (rc, g2)" by (cases "open_db e '':memory:'' ?g1")
    obtain rc2 g3 where o2: "create_table e g2 = (rc2, g3)" by (cases "create_table e g2")
    have q': "(gw_raw ?g = None) = False" "(gw_store ?g1 = None) = False" using True q by simp_all
    have run: "run_test e n g0 = (if rc \<noteq> 0
        then returning 1 [log_error e ''failed to open in-memory database'', destroy_raw, destroy_store] g2
        else if rc2 \<noteq> 0 then returning 1 (log_error e ''failed to create table'' # test_release e) g3
        else test_threads e (nat n) g3)"
      by (simp only: run_test_def Let_def q' o1 o2 prod.case if_False)
    have c2: "ctl g2 = (ctl ?g1)\<lparr>c_db := (rc = 0)\<rparr>" by (rule ctl_open_db [OF o1])
    have h: "c_held ?b ?s ?fds (-1) (-1) ((ctl g2)\<lparr>c_db := True\<rparr>)" "c_running (ctl g2) = []" "c_events (ctl g2) = []"
      using True f unfolding c2
      by (simp_all add: ctl_create_raw ctl_create_store c_held_def c_fresh_def c_got_queue_def ctl_fields)
    show ?thesis
    proof (cases "rc = 0")
      case False
      have "\<exists>g'. returning 1 [log_error e ''failed to open in-memory database'', destroy_raw, destroy_store] g2
          = Some (1, g') \<and> c_released ?b ?s ?fds (ctl g')"
        by (rule path_ends [where as = "[Some, c_free_raw, c_free_store]"])
          (use False h c2 in \<open>simp_all add: implements_intros c_released_def c_held_def c_stopped_def c_defs\<close>)
      with run False out show ?thesis by auto
    next
      case opened: True
      then have g3: "ctl g3 = (ctl g2)\<lparr>c_db := True\<rparr>" using ctl_create_table [OF o2] c2 by simp
      have "\<exists>g'. returning 1 ([log_error e ''failed to create table''] @ test_release e) g3 = Some (1, g')
          \<and> c_released ?b ?s ?fds (ctl g')"
        by (rule test_path [where as = "[Some]"]) (use h g3 in \<open>simp_all add: implements_intros c_stopped_def\<close>)
      moreover have "case test_threads e (nat n) g3 of None \<Rightarrow> \<not> e_creates e Upload
          | Some (code, g') \<Rightarrow> c_released ?b ?s ?fds (ctl g') \<and> (code = 0 \<longrightarrow> e_creates e Upload)"
        by (rule test_threads_ends) (use h g3 in simp_all)
      ultimately show ?thesis
        using run opened out
        by (cases "rc2 = 0") (auto simp: c_released_def c_stopped_def ctl_fields split: option.splits)
    qed
  qed
qed

text \<open>
  Property C30. The pipeline test. Whatever fails on its way, it ends with everything released and
  in an orderly way, or else the one thing has happened that it does not handle: the upload
  thread could not be created, and \<^verbatim>\<open>pthread_join\<close> is called on a thread that was never started.
\<close>
theorem run_test_releases:
  assumes "fresh g0"
  shows "case run_test e n g0 of
     None \<Rightarrow> \<not> e_creates e Upload
   | Some (code, g) \<Rightarrow> gw_running g = [] \<and> gw_db g = None \<and> orderly [] (gw_events g)
       \<and> open_fds (gw_port g) = open_fds (gw_port g0) \<and> live_blocks (gw_res g) = live_blocks (gw_res g0)
       \<and> live_sync (gw_res g) = live_sync (gw_res g0) \<and> (code = 0 \<longrightarrow> e_creates e Upload)"
  using assms by (rule run_test_ends)


text \<open>Environments for the witnesses: everything works, and one where the upload thread does not start.\<close>

definition good_env :: main_env where
  "good_env = \<lparr>e_now = \<lambda>_. '''', e_config = \<lambda>_. Some '''', e_log_opens = \<lambda>_. True,
     e_port = \<lparr>tcgetattr_ok = True, cfsetspeed_ok = True, tcsetattr_ok = True, fcntl_ok = True\<rparr>,
     e_serial_fd = 3, e_alarm_fd = 4, e_alloc_raw = (True, True), e_alloc_store = (True, True),
     e_db = Inr \<lparr>db_table = None, db_indexes = [], db_pragmas = []\<rparr>,
     e_create_table = (no_fault, no_fault, no_fault), e_creates = \<lambda>_. True, e_work = \<lambda>_ sh. sh, e_beats = 2,
     e_total = no_fault, e_unuploaded = no_fault, e_pid = 1\<rparr>"

definition new_gateway :: gateway where
  "new_gateway = \<lparr>gw_res = \<lparr>live_blocks = 0, live_sync = 0\<rparr>,
     gw_port = \<lparr>open_fds = [], port_termios = \<lparr>c_iflag = 0, c_oflag = 0, c_cflag = 0, c_lflag = 0, c_vmin = 0, c_vtime = 0,
       c_ispeed = 0, c_ospeed = 0\<rparr>, port_blocking = True\<rparr>,
     gw_db = None, gw_raw = None, gw_store = None, gw_g_shutdown = False, gw_told = \<lambda>_. False, gw_running = [],
     gw_written = 0, gw_failed = 0, gw_uploaded = 0, gw_up_failed = 0,
     gw_logger = logger_start (\<lambda>_. []), gw_ticks = 0, gw_events = []\<rparr>"

lemma fresh_new_gateway: "fresh new_gateway"
  by (simp add: fresh_def new_gateway_def)


theorem run_test_releases_witness:
  "case run_test (good_env\<lparr>e_alloc_store := (True, False)\<rparr>) 3 new_gateway of
     None \<Rightarrow> False | Some (code, g) \<Rightarrow> live_blocks (gw_res g) = 0 \<and> gw_running g = []"
  using run_test_releases [OF fresh_new_gateway, of "good_env\<lparr>e_alloc_store := (True, False)\<rparr>" 3]
  by (auto simp: good_env_def new_gateway_def split: option.splits)


lemma ctl_print_out [simp]: "ctl (print_out out err g) = ctl g"
  by (simp add: ctl_def print_out_def)

lemma fresh_steps:
  "fresh (put_logs e ms g) = fresh g" "fresh (print_out out err g) = fresh g" "fresh (g\<lparr>gw_logger := l\<rparr>) = fresh g"
  by (simp_all add: fresh_ctl)

lemma port_steps:
  "open_fds (gw_port (put_logs e ms g)) = open_fds (gw_port g)"
  "open_fds (gw_port (print_out out err g)) = open_fds (gw_port g)"
  "open_fds (gw_port (g\<lparr>gw_logger := l\<rparr>)) = open_fds (gw_port g)"
  using ctl_fields(3) ctl_put_logs ctl_print_out ctl_logger by metis+



end
