(* ===== verification/Pipeline.thy ===== *)
theory Pipeline
  imports Gateway_Contexts
begin

section \<open>The pipeline: collector, processor, store and main together\<close>

text \<open>
  The threads of the gateway interleaved. A step is what one thread does between two points where
  others can run: the committed part of a queue operation (its waits change nothing, and what it
  does takes effect in one state of the queue), an insertion, a look at a shutdown flag, or one
  statement of the shutdown in \<^verbatim>\<open>main\<close>. The uploader and the trimming change the database in
  between. Ghost components record what was collected, what was written and how many samples
  were dropped, refused or failed to be written.
\<close>

subsection \<open>States and steps\<close>

record pipe =
  p_chand :: "water_sample option"
  p_raw :: sample_queue
  p_phand :: "water_sample option"
  p_store :: sample_queue
  p_shand :: "water_sample option"
  p_ctx :: store_ctx
  p_db :: database
  p_collecting :: bool
  p_processing :: bool
  p_storing :: bool
  p_g_shutdown :: bool
  p_proc_shutdown :: bool
  p_store_shutdown :: bool
  p_main :: nat
  p_collected :: "water_sample list"
  p_written :: "water_sample list"
  p_lost :: nat

text \<open>A push into this queue costs a sample: the new one if it is shut down, the oldest if it is full.\<close>
definition costs :: "sample_queue \<Rightarrow> nat" where
  "costs q = (if q_shutdown q \<or> q_count q \<ge> q_capacity q then 1 else 0)"

text \<open>The insertion of a sample succeeds.\<close>
definition stored :: "sql_env \<Rightarrow> string \<Rightarrow> water_sample \<Rightarrow> database \<Rightarrow> bool" where
  "stored e dev x d \<longleftrightarrow> fst (sqlite_store_insert e (Some d) (Some dev) (Some x)) = 0"

text \<open>
  The steps of the threads and of \<^verbatim>\<open>main\<close>, whose shutdown sets the two flags and shuts down the
  two queues, in this order, after the signal handler has set \<^verbatim>\<open>g_shutdown\<close>.
\<close>
inductive worker_step :: "processor_threshold \<Rightarrow> pipe \<Rightarrow> pipe \<Rightarrow> bool" for th :: processor_threshold where
  collect_take: "p_collecting s \<Longrightarrow> \<not> p_g_shutdown s \<Longrightarrow> p_chand s = None \<Longrightarrow>
     worker_step th s (s\<lparr>p_chand := Some x, p_collected := p_collected s @ [x]\<rparr>)"
| collect_push: "p_collecting s \<Longrightarrow> p_chand s = Some x \<Longrightarrow> push_commit (p_raw s) x = (r, q) \<Longrightarrow>
     worker_step th s (s\<lparr>p_chand := None, p_raw := q, p_lost := p_lost s + costs (p_raw s)\<rparr>)"
| collect_stop: "p_collecting s \<Longrightarrow> p_g_shutdown s \<Longrightarrow> p_chand s = None \<Longrightarrow>
     worker_step th s (s\<lparr>p_collecting := False\<rparr>)"
| process_pop: "p_processing s \<Longrightarrow> p_phand s = None \<Longrightarrow> 0 < q_count (p_raw s) \<Longrightarrow>
     pop_commit (p_raw s) = (Some x, q) \<Longrightarrow> worker_step th s (s\<lparr>p_phand := Some x, p_raw := q\<rparr>)"
| process_push: "p_processing s \<Longrightarrow> p_phand s = Some x \<Longrightarrow> push_commit (p_store s) (mark_alarm th x) = (r, q) \<Longrightarrow>
     worker_step th s (s\<lparr>p_phand := None, p_store := q, p_lost := p_lost s + costs (p_store s)\<rparr>)"
| process_stop: "p_processing s \<Longrightarrow> p_proc_shutdown s \<Longrightarrow> p_phand s = None \<Longrightarrow>
     worker_step th s (s\<lparr>p_processing := False\<rparr>)"
| store_pop: "p_storing s \<Longrightarrow> p_shand s = None \<Longrightarrow> 0 < q_count (p_store s) \<Longrightarrow>
     pop_commit (p_store s) = (Some x, q) \<Longrightarrow> worker_step th s (s\<lparr>p_shand := Some x, p_store := q\<rparr>)"
| store_write: "p_storing s \<Longrightarrow> p_shand s = Some x \<Longrightarrow>
     store_sample e x (p_ctx s) (p_db s) = (ctx', db', logs) \<Longrightarrow>
     ok = stored e (st_device_id (p_ctx s)) x (p_db s) \<Longrightarrow>
     worker_step th s (s\<lparr>p_shand := None, p_ctx := ctx', p_db := db',
       p_written := p_written s @ (if ok then [x] else []), p_lost := p_lost s + (if ok then 0 else 1)\<rparr>)"
| store_stop: "p_storing s \<Longrightarrow> p_store_shutdown s \<Longrightarrow> p_shand s = None \<Longrightarrow> q_count (p_store s) = 0 \<Longrightarrow>
     worker_step th s (s\<lparr>p_storing := False\<rparr>)"
| signal: "\<not> p_g_shutdown s \<Longrightarrow> worker_step th s (s\<lparr>p_g_shutdown := True\<rparr>)"
| main_proc: "p_g_shutdown s \<Longrightarrow> p_main s = 0 \<Longrightarrow> worker_step th s (s\<lparr>p_proc_shutdown := True, p_main := 1\<rparr>)"
| main_store: "p_main s = 1 \<Longrightarrow> worker_step th s (s\<lparr>p_store_shutdown := True, p_main := 2\<rparr>)"
| main_raw: "p_main s = 2 \<Longrightarrow> worker_step th s (s\<lparr>p_raw := shutdown_queue (p_raw s), p_main := 3\<rparr>)"
| main_queue: "p_main s = 3 \<Longrightarrow> worker_step th s (s\<lparr>p_store := shutdown_queue (p_store s), p_main := 4\<rparr>)"

text \<open>What else happens to the database: the trims of the store thread, the updates of the uploader.\<close>
inductive db_step :: "pipe \<Rightarrow> pipe \<Rightarrow> bool" where
  trim: "sqlite_store_trim_cache e (Some (p_db s)) n = (rc, Some d, logs) \<Longrightarrow> db_step s (s\<lparr>p_db := d\<rparr>)"
| mark_sent: "sqlite_store_mark_uploaded e (Some (p_db s)) i = (rc, Some d) \<Longrightarrow> db_step s (s\<lparr>p_db := d\<rparr>)"
| count_retry: "sqlite_store_inc_retry e (Some (p_db s)) i = (rc, Some d) \<Longrightarrow> db_step s (s\<lparr>p_db := d\<rparr>)"

inductive pipe_reach :: "processor_threshold \<Rightarrow> pipe \<Rightarrow> pipe \<Rightarrow> bool" for th s0 where
  start: "pipe_reach th s0 s0"
| worker: "pipe_reach th s0 s \<Longrightarrow> worker_step th s s' \<Longrightarrow> pipe_reach th s0 s'"
| access: "pipe_reach th s0 s \<Longrightarrow> db_step s s' \<Longrightarrow> pipe_reach th s0 s'"

inductive_cases db_stepE: "db_step s s'"

text \<open>The start: two empty open queues, the context of the store thread and a database with a table.\<close>
definition pipe_start :: "gateway_config \<Rightarrow> database \<Rightarrow> pipe" where
  "pipe_start cfg d =
     (let q = the (fst (sample_queue_create True True DEFAULT_QUEUE_CAPACITY \<lparr>live_blocks = 0, live_sync = 0\<rparr>))
      in \<lparr>p_chand = None, p_raw = q, p_phand = None, p_store = q, p_shand = None, p_ctx = main_store_ctx cfg,
          p_db = d, p_collecting = True, p_processing = True, p_storing = True, p_g_shutdown = False,
          p_proc_shutdown = False, p_store_shutdown = False, p_main = 0, p_collected = [], p_written = [],
          p_lost = 0\<rparr>)"

lemmas [start_simps] = pipe_start_def Let_def

lemma start_queue:
  assumes "q = the (fst (sample_queue_create True True DEFAULT_QUEUE_CAPACITY \<lparr>live_blocks = 0, live_sync = 0\<rparr>))"
  shows "queue_inv q" "queue_list q = []" "q_count q = 0" "\<not> q_shutdown q" "q_capacity q = 64"
  using assms
  by (simp_all add: sample_queue_create_def queue_inv_def queue_list_def DEFAULT_QUEUE_CAPACITY_def Let_def)

subsection \<open>Order and accounts\<close>

definition held :: "water_sample option \<Rightarrow> water_sample list" where
  "held h = (case h of None \<Rightarrow> [] | Some x \<Rightarrow> [x])"

lemma held_simps [simp]: "held None = []" "held (Some x) = [x]"
  by (simp_all add: held_def)

text \<open>The samples on their way, the oldest first, each as it is or will be stored.\<close>
definition in_flight :: "processor_threshold \<Rightarrow> pipe \<Rightarrow> water_sample list" where
  "in_flight th s = held (p_shand s) @ queue_list (p_store s)
     @ map (mark_alarm th) (held (p_phand s) @ queue_list (p_raw s) @ held (p_chand s))"

text \<open>Everything that was collected and not lost, in the order of the pipeline.\<close>
definition flow :: "processor_threshold \<Rightarrow> pipe \<Rightarrow> water_sample list" where
  "flow th s = p_written s @ in_flight th s"

definition pipe_inv :: "processor_threshold \<Rightarrow> pipe \<Rightarrow> bool" where
  "pipe_inv th s \<longleftrightarrow> queue_inv (p_raw s) \<and> queue_inv (p_store s)
     \<and> subseq (flow th s) (map (mark_alarm th) (p_collected s))
     \<and> length (p_collected s) = length (flow th s) + p_lost s"

lemmas pipe_flow_defs = pipe_inv_def flow_def in_flight_def

lemma push_effect:
  assumes "queue_inv q" and "push_commit q x = (r, q')"
  shows "queue_inv q'" and "subseq (queue_list q') (queue_list q @ [x])"
    and "length (queue_list q') + costs q = length (queue_list q) + 1"
proof -
  have q': "q' = queue_put x q" using assms(2) by (simp add: queue_put_eq)
  show "queue_inv q'" unfolding q' by (rule sq.wf_put [OF assms(1)])
  show "subseq (queue_list q') (queue_list q @ [x])" unfolding q' by (rule sq.put_subseq [OF assms(1)])
  show "length (queue_list q') + costs q = length (queue_list q) + 1"
    using sq.put_closed [OF assms(1), of x] sq.put_open [OF assms(1), of x] sq.cap_pos [OF assms(1)]
    unfolding q' by (cases "q_shutdown q") (auto simp: costs_def)
qed

lemma pop_effect:
  assumes "queue_inv q" and "0 < q_count q" and "pop_commit q = (Some x, q')"
  shows "queue_inv q'" and "queue_list q = x # queue_list q'"
  using pop_commit_nonempty [OF assms(1,2)] queue_list_nonempty [OF assms(2)] assms(3) by auto

lemma inv_keep:
  assumes "pipe_inv th s" and "queue_inv (p_raw s')" and "queue_inv (p_store s')"
    and "p_collected s' = p_collected s" and "subseq (flow th s') (flow th s)"
    and "length (flow th s') + p_lost s' = length (flow th s) + p_lost s"
  shows "pipe_inv th s'"
  using assms subseq_order.trans [OF assms(5)] by (auto simp: pipe_inv_def)

lemma worker_step_inv:
  assumes "worker_step th s s'" and "pipe_inv th s"
  shows "pipe_inv th s'"
  using assms
proof (induction rule: worker_step.induct)
  case (collect_take s x)
  then have "flow th (s\<lparr>p_chand := Some x, p_collected := p_collected s @ [x]\<rparr>) = flow th s @ [mark_alarm th x]"
    by (simp add: flow_def in_flight_def)
  with collect_take show ?case by (simp add: pipe_inv_def)
next
  case (collect_push s x r q)
  then have q: "queue_inv (p_raw s)" by (simp add: pipe_inv_def)
  note e = push_effect [OF q collect_push.hyps(3)]
  have "subseq (map (mark_alarm th) (queue_list q)) (map (mark_alarm th) (queue_list (p_raw s)) @ [mark_alarm th x])"
    using subseq_map [OF e(2), of "mark_alarm th"] by simp
  with collect_push e show ?case
    by (intro inv_keep [OF collect_push.prems]) (simp_all add: pipe_flow_defs subseq_append')
next
  case (process_pop s x q)
  then have q: "queue_inv (p_raw s)" by (simp add: pipe_inv_def)
  note e = pop_effect [OF q process_pop.hyps(3,4)]
  have "flow th (s\<lparr>p_phand := Some x, p_raw := q\<rparr>) = flow th s"
    using process_pop.hyps(2) e(2) by (simp add: flow_def in_flight_def)
  with process_pop.prems e(1) show ?case by (intro inv_keep [OF process_pop.prems]) (simp_all add: pipe_inv_def)
next
  case (process_push s x r q)
  then have q: "queue_inv (p_store s)" by (simp add: pipe_inv_def)
  note e = push_effect [OF q process_push.hyps(3)]
  have "subseq (queue_list q @ rest) (queue_list (p_store s) @ mark_alarm th x # rest)" for rest
    using list_emb_append_mono [OF e(2), of rest rest] by simp
  with process_push e show ?case
    by (intro inv_keep [OF process_push.prems]) (simp_all add: pipe_flow_defs subseq_append')
next
  case (store_pop s x q)
  then have q: "queue_inv (p_store s)" by (simp add: pipe_inv_def)
  note e = pop_effect [OF q store_pop.hyps(3,4)]
  have "flow th (s\<lparr>p_shand := Some x, p_store := q\<rparr>) = flow th s"
    using store_pop.hyps(2) e(2) by (simp add: flow_def in_flight_def)
  with store_pop.prems e(1) show ?case by (intro inv_keep [OF store_pop.prems]) (simp_all add: pipe_inv_def)
next
  case (store_write s x e ctx' db' logs ok)
  then show ?case
    by (intro inv_keep [OF store_write.prems]) (simp_all add: pipe_flow_defs subseq_append' list_emb_Cons)
qed (simp_all add: pipe_flow_defs)

lemma db_step_inv:
  assumes "db_step s s'" and "pipe_inv th s"
  shows "pipe_inv th s'"
  using assms by (induction rule: db_step.induct) (simp_all add: pipe_flow_defs)

lemma pipe_start_inv: "pipe_inv th (pipe_start cfg d)"
  using start_queue [OF refl] by (simp add: pipe_flow_defs start_simps)

lemma pipe_reach_inv: "pipe_reach th s0 s \<Longrightarrow> pipe_inv th s0 \<Longrightarrow> pipe_inv th s"
  by (induction rule: pipe_reach.induct) (auto intro: worker_step_inv db_step_inv)

text \<open>
  Property C3. The pipeline under every interleaving of the threads, the shutdown and the accesses
  to the database: the samples written and then those still on their way (store thread, store
  queue, processor, raw queue, collector) are, with their alarm flags set, a subsequence of the
  samples collected: nothing is invented, duplicated or overtaken. The rest is accounted for
  exactly: dropped by a full queue, refused by one shut down, or failed to be written. In
  particular, without such a loss nothing is missing.
\<close>
theorem pipeline_order_and_accounts:
  assumes "pipe_reach th (pipe_start cfg d) s"
  shows "subseq (p_written s @ in_flight th s) (map (mark_alarm th) (p_collected s))
    \<and> length (p_collected s) = length (p_written s) + length (in_flight th s) + p_lost s
    \<and> (p_lost s = 0 \<longrightarrow> p_written s @ in_flight th s = map (mark_alarm th) (p_collected s))"
proof -
  have "pipe_inv th s" using pipe_reach_inv [OF assms(1)] pipe_start_inv by blast
  then have i: "subseq (flow th s) (map (mark_alarm th) (p_collected s))"
    "length (p_collected s) = length (flow th s) + p_lost s" by (simp_all add: pipe_inv_def)
  moreover have "p_lost s = 0 \<longrightarrow> flow th s = map (mark_alarm th) (p_collected s)"
    using subseq_same_length [OF i(1)] i(2) by simp
  ultimately show ?thesis by (simp add: flow_def)
qed


definition small_start :: pipe where
  "small_start = pipe_start default_config \<lparr>db_table = Some small_table, db_indexes = [], db_pragmas = []\<rparr>"

lemmas [start_simps] = small_start_def

theorem pipeline_order_and_accounts_witness:
  "\<exists>s. pipe_reach default_threshold small_start s \<and> p_collected s = [zero_sample]
     \<and> p_written s @ in_flight default_threshold s = [mark_alarm default_threshold zero_sample]"
proof -
  let ?s = "small_start\<lparr>p_chand := Some zero_sample, p_collected := p_collected small_start @ [zero_sample]\<rparr>"
  have r: "pipe_reach default_threshold small_start ?s"
    by (rule pipe_reach.worker [OF pipe_reach.start worker_step.collect_take])
      (simp_all add: start_simps)
  from pipeline_order_and_accounts [OF r [unfolded small_start_def]] r show ?thesis
    by (intro exI [of _ ?s]) (simp add: start_simps)
qed

subsection \<open>The rows of the database\<close>

text \<open>A row as it was inserted, without what the uploader has noted in it.\<close>
definition untouched :: "row \<Rightarrow> row" where
  "untouched r = r\<lparr>row_uploaded := 0, row_upload_retry := 0\<rparr>"

lemma untouched_simps [simp]:
  "untouched (r\<lparr>row_uploaded := u\<rparr>) = untouched r" "untouched (r\<lparr>row_upload_retry := n\<rparr>) = untouched r"
  "untouched (row_for i dev x) = row_for i dev x" "row_id (row_for i dev x) = i"
  by (simp_all add: untouched_def row_for_def)

text \<open>The rows with an id above \<open>base\<close> are those of the samples written, the \<open>n\<close>-th under id \<open>base + n\<close>.\<close>
definition rows_match :: "int \<Rightarrow> string \<Rightarrow> water_sample list \<Rightarrow> table \<Rightarrow> bool" where
  "rows_match base dev ws t \<longleftrightarrow> table_inv t \<and> t_seq t = base + int (length ws)
     \<and> list_all (\<lambda>r. base < row_id r \<longrightarrow> untouched r = row_for (row_id r) dev (ws ! nat (row_id r - base - 1)))
         (t_rows t)"

lemma rows_match_update:
  assumes "rows_match base dev ws t" and "\<And>r. row_id (f r) = row_id r" and "\<And>r. untouched (f r) = untouched r"
  shows "rows_match base dev ws (sql_update i f t)"
  using assms table_inv_update [of t f i] by (auto simp: rows_match_def sql_update_def list_all_iff)

lemma rows_match_delete: "rows_match base dev ws t \<Longrightarrow> rows_match base dev ws (sql_delete_ids ks t)"
  using table_inv_delete [of t ks] by (auto simp: rows_match_def sql_delete_ids_def list_all_iff)

lemma rows_match_insert:
  assumes "rows_match base dev ws t" and "sql_insert dev x t = Some t'"
  shows "rows_match base dev (ws @ [x]) t'"
proof -
  have "\<not> has_nan x" using assms(2) sql_insert_None [of dev x t] by auto
  then have t': "t' = t\<lparr>t_rows := t_rows t @ [row_for (t_seq t + 1) dev x], t_seq := t_seq t + 1\<rparr>"
    using assms(2) sql_insert_eq by simp
  have i: "table_inv t'" using assms by (auto simp: rows_match_def intro: table_inv_insert)
  have "nat (row_id r - base - 1) < length ws" if "r \<in> set (t_rows t)" "base < row_id r" for r
    using that assms(1) by (auto simp: rows_match_def table_inv_def list_all_iff)
  then show ?thesis
    using i assms(1) by (auto simp: rows_match_def t' list_all_iff nth_append)
qed

definition db_match :: "int \<Rightarrow> string \<Rightarrow> pipe \<Rightarrow> bool" where
  "db_match base dev s \<longleftrightarrow> st_device_id (p_ctx s) = dev
     \<and> (\<exists>t. db_table (p_db s) = Some t \<and> rows_match base dev (p_written s) t)"

lemma exec_delete_match:
  assumes "db_table d = Some t" and "rows_match base dev ws t" and "\<And>t. \<exists>ks. del t = sql_delete_ids ks t"
  shows "\<exists>t'. db_table (snd (exec_delete e del d)) = Some t' \<and> rows_match base dev ws t'"
  using assms rows_match_delete
  by (auto simp: exec_delete_def prepared_def split: option.splits) metis

lemma trim_match:
  assumes "db_table d = Some t" and "rows_match base dev ws t"
    and "sqlite_store_trim_cache e (Some d) n = (rc, Some d', logs)"
  shows "\<exists>t'. db_table d' = Some t' \<and> rows_match base dev ws t'"
proof -
  have ks: "\<exists>ks. sql_delete_uploaded m u = sql_delete_ids ks u" "\<exists>ks. sql_delete_oldest m u = sql_delete_ids ks u"
    for m u by (auto simp: sql_delete_uploaded_def sql_delete_oldest_def)
  define del1 where "del1 m = snd (exec_delete (tr_delete1 e) (sql_delete_uploaded m) d)" for m
  have "d' = d \<or> (\<exists>m. d' = del1 m) \<or> (\<exists>m m'. d' = snd (exec_delete (tr_delete2 e) (sql_delete_oldest m') (del1 m)))"
    using assms(3) by (auto simp: sqlite_store_trim_cache_def del1_def Let_def split_def split: if_splits)
  moreover have m: "\<exists>t'. db_table (del1 m) = Some t' \<and> rows_match base dev ws t'" for m
    unfolding del1_def by (rule exec_delete_match [OF assms(1,2) ks(1)])
  moreover have "\<exists>t'. db_table (snd (exec_delete (tr_delete2 e) (sql_delete_oldest m') (del1 m))) = Some t'
      \<and> rows_match base dev ws t'" for m m'
    using m [of m] exec_delete_match [where del = "sql_delete_oldest m'" and e = "tr_delete2 e", OF _ _ ks(2)]
    by (elim exE conjE) blast
  ultimately show ?thesis using assms(1,2) by blast
qed

lemma store_sample_match:
  assumes "db_table d = Some t" and "rows_match base (st_device_id ctx) ws t"
    and "store_sample e x ctx d = (ctx', d', logs)"
  shows "\<exists>t'. db_table d' = Some t' \<and> rows_match base (st_device_id ctx)
      (ws @ (if stored e (st_device_id ctx) x d then [x] else [])) t'"
proof (cases "sql_fault e = Works \<and> sql_insert (st_device_id ctx) x t \<noteq> None")
  case True
  then obtain t' where t': "sql_insert (st_device_id ctx) x t = Some t'" by auto
  then show ?thesis
    using True assms(1,3) rows_match_insert [OF assms(2) t']
    by (simp add: stored_def store_sample_def sqlite_store_insert_def prepared_def) auto
next
  case False
  then show ?thesis
    using assms by (cases "sql_fault e") (auto simp: stored_def store_sample_def sqlite_store_insert_def prepared_def)
qed

lemma worker_step_match: "worker_step th s s' \<Longrightarrow> db_match base dev s \<Longrightarrow> db_match base dev s'"
proof (induction rule: worker_step.induct)
  case (store_write s x e ctx' db' logs ok)
  then obtain t where t: "st_device_id (p_ctx s) = dev" "db_table (p_db s) = Some t"
    "rows_match base dev (p_written s) t" by (auto simp: db_match_def)
  have c: "st_device_id ctx' = dev" using store_sample_counts [OF store_write.hyps(3)] t(1) by simp
  show ?case
    using store_sample_match [where ctx = "p_ctx s", unfolded t(1), OF t(2,3) store_write.hyps(3)]
      store_write.hyps(4) c t(1) by (simp add: db_match_def)
qed (auto simp: db_match_def)

lemma db_step_match: "db_step s s' \<Longrightarrow> db_match base dev s \<Longrightarrow> db_match base dev s'"
proof (induction rule: db_step.induct)
  case (trim e s n rc d logs)
  then show ?case using trim_match by (auto simp: db_match_def)
qed (auto simp: db_match_def sqlite_store_mark_uploaded_def sqlite_store_inc_retry_def prepared_def
    split: option.splits if_splits intro: rows_match_update)

lemma pipe_reach_match: "pipe_reach th s0 s \<Longrightarrow> db_match base dev s0 \<Longrightarrow> db_match base dev s"
  by (induction rule: pipe_reach.induct) (auto intro: worker_step_match db_step_match)

text \<open>
  Property C4. What is in the database, whatever has been inserted, trimmed, marked or counted:
  ids are handed out in the order of writing without a gap, and every row above those of the start is
  that of the sample written under its id, with the device id of the gateway, its values untouched
  by the uploader.
\<close>
theorem pipeline_rows:
  assumes "pipe_reach th (pipe_start cfg d) s" and "db_table d = Some t0" and "table_inv t0"
  shows "\<exists>t. db_table (p_db s) = Some t \<and> table_inv t \<and> t_seq t = t_seq t0 + int (length (p_written s))
    \<and> (\<forall>r \<in> set (t_rows t). t_seq t0 < row_id r \<longrightarrow>
         untouched r = row_for (row_id r) (cfg_device_id cfg) (p_written s ! nat (row_id r - t_seq t0 - 1)))"
proof -
  have "db_match (t_seq t0) (cfg_device_id cfg) (pipe_start cfg d)"
    using assms(2,3) by (auto simp: db_match_def rows_match_def start_simps main_store_ctx_def table_inv_def list_all_iff)
  with pipe_reach_match [OF assms(1)] have "db_match (t_seq t0) (cfg_device_id cfg) s" by blast
  then show ?thesis by (auto simp: db_match_def rows_match_def list_all_iff)
qed

theorem pipeline_rows_witness: "\<exists>t. db_table (p_db small_start) = Some t \<and> t_seq t = 5"
  using pipeline_rows [OF pipe_reach.start, where cfg = default_config and ?t0.0 = small_table and
      d = "\<lparr>db_table = Some small_table, db_indexes = [], db_pragmas = []\<rparr>"]
    small_table_inv by (auto simp: start_simps small_table_def)

subsection \<open>What the counters report\<close>

text \<open>
  The queues are shut down by the last two statements of the shutdown and keep their capacity; the
  counters of the program against the ghosts.
\<close>
definition counter_inv :: "pipe \<Rightarrow> bool" where
  "counter_inv s \<longleftrightarrow> (q_shutdown (p_raw s) \<longleftrightarrow> 3 \<le> p_main s) \<and> (q_shutdown (p_store s) \<longleftrightarrow> 4 \<le> p_main s)
     \<and> q_capacity (p_raw s) = 64 \<and> q_capacity (p_store s) = 64
     \<and> st_write_count (p_ctx s) = of_nat (length (p_written s))
     \<and> (p_main s \<le> 2 \<longrightarrow>
          of_nat (p_lost s) = q_overflow_count (p_raw s) + q_overflow_count (p_store s) + st_write_fail_count (p_ctx s)
        \<and> q_push_count (p_raw s) + of_nat (length (held (p_chand s))) = of_nat (length (p_collected s)))"

lemma push_counters:
  assumes "push_commit q x = (r, q')"
  shows "q_shutdown q' = q_shutdown q" and "q_capacity q' = q_capacity q"
    and "\<not> q_shutdown q \<Longrightarrow> q_push_count q' = q_push_count q + 1 \<and> q_overflow_count q' = q_overflow_count q + of_nat (costs q)"
  using assms by (auto simp: push_commit_def append_sample_def drop_oldest_def costs_def split: if_splits)

lemma pop_counters:
  assumes "pop_commit q = (Some x, q')"
  shows "q_shutdown q' = q_shutdown q" and "q_capacity q' = q_capacity q" and "q_push_count q' = q_push_count q"
    and "q_overflow_count q' = q_overflow_count q"
  using assms by (auto simp: pop_commit_def split: if_splits)

lemma store_counters:
  assumes "store_sample e x ctx d = (ctx', d', logs)"
  shows "st_write_count ctx' = st_write_count ctx + (if stored e (st_device_id ctx) x d then 1 else 0)"
    and "st_write_fail_count ctx' = st_write_fail_count ctx + (if stored e (st_device_id ctx) x d then 0 else 1)"
  using assms by (auto simp: store_sample_def stored_def Let_def split: prod.splits if_splits)

lemma worker_step_counters: "worker_step th s s' \<Longrightarrow> counter_inv s \<Longrightarrow> counter_inv s'"
proof (induction rule: worker_step.induct)
  case (collect_push s x r q)
  then show ?case using push_counters [OF collect_push.hyps(3)] by (auto simp: counter_inv_def algebra_simps)
next
  case (process_pop s x q)
  then show ?case using pop_counters [OF process_pop.hyps(4)] by (simp add: counter_inv_def)
next
  case (process_push s x r q)
  then show ?case using push_counters [OF process_push.hyps(3)] by (auto simp: counter_inv_def algebra_simps)
next
  case (store_pop s x q)
  then show ?case using pop_counters [OF store_pop.hyps(4)] by (simp add: counter_inv_def)
next
  case (store_write s x e ctx' db' logs ok)
  then show ?case using store_counters [OF store_write.hyps(3)] by (simp add: counter_inv_def)
qed (simp_all add: counter_inv_def shutdown_queue_def)

lemma db_step_counters: "db_step s s' \<Longrightarrow> counter_inv s \<Longrightarrow> counter_inv s'"
  by (induction rule: db_step.induct) (simp_all add: counter_inv_def)

lemma pipe_start_counters: "counter_inv (pipe_start cfg d)"
  by (simp add: counter_inv_def main_store_ctx_def sample_queue_create_def DEFAULT_QUEUE_CAPACITY_def start_simps)

lemma pipe_reach_counters: "pipe_reach th s0 s \<Longrightarrow> counter_inv s0 \<Longrightarrow> counter_inv s"
  by (induction rule: pipe_reach.induct) (auto intro: worker_step_counters db_step_counters)

text \<open>
  Property C6. No silent loss while the gateway runs: up to the shutdown of the queues the counters it
  reports (the overflows of the two queues and the failed writes) are exactly the samples that were
  lost, and the pushes of the raw queue and the writes of the store are exactly the samples
  collected and written; each modulo the width of the counters.
\<close>
theorem pipeline_counters_report:
  assumes "pipe_reach th (pipe_start cfg d) s" and "p_main s \<le> 2"
  shows "of_nat (length (p_collected s) - length (p_written s) - length (in_flight th s))
      = sample_queue_overflow_count (Some (p_raw s)) + sample_queue_overflow_count (Some (p_store s))
        + st_write_fail_count (p_ctx s)
    \<and> st_write_count (p_ctx s) = of_nat (length (p_written s))
    \<and> sample_queue_push_count (Some (p_raw s)) + of_nat (length (held (p_chand s))) = of_nat (length (p_collected s))"
proof -
  have "counter_inv s" using pipe_reach_counters [OF assms(1) pipe_start_counters] .
  moreover have "pipe_inv th s" using pipe_reach_inv [OF assms(1)] pipe_start_inv by blast
  then have "length (p_collected s) - length (p_written s) - length (in_flight th s) = p_lost s"
    by (simp add: pipe_inv_def flow_def)
  ultimately show ?thesis
    using assms(2) by (simp only: counter_inv_def sample_queue_overflow_count_def sample_queue_push_count_def option.case)
qed

theorem pipeline_counters_report_witness:
  "\<exists>s. pipe_reach default_threshold small_start s \<and> p_collected s = [zero_sample]
     \<and> sample_queue_overflow_count (Some (p_raw s)) + sample_queue_overflow_count (Some (p_store s))
        + st_write_fail_count (p_ctx s) = 0"
proof -
  let ?s = "small_start\<lparr>p_chand := Some zero_sample, p_collected := p_collected small_start @ [zero_sample]\<rparr>"
  have r: "pipe_reach default_threshold small_start ?s"
    by (rule pipe_reach.worker [OF pipe_reach.start worker_step.collect_take])
      (simp_all add: start_simps)
  have "p_main ?s \<le> 2" by (simp add: start_simps)
  from pipeline_counters_report [OF r [unfolded small_start_def] this [unfolded small_start_def]] r show ?thesis
    using start_queue [OF refl]
    by (intro exI [of _ ?s]) (simp add: in_flight_def start_simps)
qed

subsection \<open>Shutting down\<close>

text \<open>
  What is left to do: each sample on its way counts for the steps it may still take, each live
  thread and each statement of the shutdown for one.
\<close>
definition steps_left :: "pipe \<Rightarrow> nat" where
  "steps_left s = 6 * length (held (p_chand s)) + 5 * q_count (p_raw s) + 4 * length (held (p_phand s))
     + 3 * q_count (p_store s) + 2 * length (held (p_shand s))
     + (if p_collecting s then 1 else 0) + (if p_processing s then 1 else 0) + (if p_storing s then 1 else 0)
     + (4 - p_main s)"

text \<open>The flags follow the shutdown, and a thread that has stopped holds nothing.\<close>
definition flags_inv :: "pipe \<Rightarrow> bool" where
  "flags_inv s \<longleftrightarrow> p_main s \<le> 4 \<and> (0 < p_main s \<longrightarrow> p_proc_shutdown s) \<and> (1 < p_main s \<longrightarrow> p_store_shutdown s)
     \<and> (0 < p_main s \<longrightarrow> p_g_shutdown s)
     \<and> (\<not> p_collecting s \<longrightarrow> p_chand s = None) \<and> (\<not> p_processing s \<longrightarrow> p_phand s = None)
     \<and> (\<not> p_storing s \<longrightarrow> p_shand s = None)"

lemma worker_step_flags: "worker_step th s s' \<Longrightarrow> flags_inv s \<Longrightarrow> flags_inv s'"
  by (induction rule: worker_step.induct) (auto simp: flags_inv_def)

lemma db_step_frame:
  "db_step s s' \<Longrightarrow> flags_inv s' = flags_inv s \<and> steps_left s' = steps_left s \<and> p_g_shutdown s' = p_g_shutdown s"
  by (induction rule: db_step.induct) (simp_all add: flags_inv_def steps_left_def)

lemma pipe_reach_flags: "pipe_reach th s0 s \<Longrightarrow> flags_inv s0 \<Longrightarrow> flags_inv s"
  by (induction rule: pipe_reach.induct) (auto dest: worker_step_flags db_step_frame)

lemma held_le: "length (held h) \<le> 1"
  by (cases h) simp_all

lemma push_count: "queue_inv q \<Longrightarrow> push_commit q x = (r, q') \<Longrightarrow> q_count q' \<le> q_count q + 1"
  using push_effect [of q x r q'] by simp

lemma pop_count:
  "queue_inv q \<Longrightarrow> 0 < q_count q \<Longrightarrow> pop_commit q = (Some x, q') \<Longrightarrow> q_count q = q_count q' + 1"
  using pop_effect [of q x q'] by (metis Suc_eq_plus1 length_Cons length_queue_list)

lemma shutdown_steps_decrease:
  assumes "worker_step th s s'" and "p_g_shutdown s" and "pipe_inv th s"
  shows "p_g_shutdown s' \<and> steps_left s' < steps_left s"
  using assms
proof (induction rule: worker_step.induct)
  case (collect_push s x r q)
  then have q: "queue_inv (p_raw s)" by (simp add: pipe_inv_def)
  show ?case using push_count [OF q collect_push.hyps(3)] collect_push by (simp add: steps_left_def)
next
  case (process_pop s x q)
  then have q: "queue_inv (p_raw s)" by (simp add: pipe_inv_def)
  show ?case using pop_count [OF q process_pop.hyps(3,4)] process_pop by (simp add: steps_left_def)
next
  case (process_push s x r q)
  then have q: "queue_inv (p_store s)" by (simp add: pipe_inv_def)
  show ?case using push_count [OF q process_push.hyps(3)] process_push by (simp add: steps_left_def)
next
  case (store_pop s x q)
  then have q: "queue_inv (p_store s)" by (simp add: pipe_inv_def)
  show ?case using pop_count [OF q store_pop.hyps(3,4)] store_pop by (simp add: steps_left_def)
qed (simp_all add: steps_left_def shutdown_queue_def)

text \<open>Nobody can be stuck: which thread moves next while one is alive.\<close>

lemma worker_enabled:
  assumes "p_g_shutdown s" and "pipe_inv th s" and "flags_inv s"
    and "p_collecting s \<or> p_processing s \<or> p_storing s \<or> p_main s \<noteq> 4"
  shows "\<exists>s'. worker_step th s s'"
proof -
  have q: "queue_inv (p_store s)" using assms(2) by (simp add: pipe_inv_def)
  have main: "\<exists>s'. worker_step th s s'" if m: "p_main s < 4"
  proof -
    consider "p_main s = 0" | "p_main s = 1" | "p_main s = 2" | "p_main s = 3"
      using m by (auto simp: numeral_eq_Suc less_Suc_eq)
    then show ?thesis
      using assms(1) by cases (blast intro: worker_step.main_proc worker_step.main_store worker_step.main_raw worker_step.main_queue)+
  qed
  have collect: "\<exists>s'. worker_step th s s'" if "p_collecting s"
  proof (cases "p_chand s")
    case None
    with that assms(1) show ?thesis by (blast intro: worker_step.collect_stop)
  next
    case (Some x)
    obtain r q' where "push_commit (p_raw s) x = (r, q')" by fastforce
    with that Some show ?thesis by (blast intro: worker_step.collect_push)
  qed
  have process: "\<exists>s'. worker_step th s s'" if "p_processing s" "p_main s = 4"
  proof (cases "p_phand s")
    case None
    with that assms(3) show ?thesis by (auto simp: flags_inv_def intro: worker_step.process_stop)
  next
    case (Some x)
    obtain r q' where "push_commit (p_store s) (mark_alarm th x) = (r, q')" by fastforce
    with that Some show ?thesis by (blast intro: worker_step.process_push)
  qed
  have store: "\<exists>s'. worker_step th s s'" if a: "p_storing s" "p_main s = 4"
  proof (cases "p_shand s")
    case None
    show ?thesis
    proof (cases "0 < q_count (p_store s)")
      case True
      then obtain y q' where "pop_commit (p_store s) = (Some y, q')"
        using pop_commit_nonempty(1) [OF q] by (cases "pop_commit (p_store s)") auto
      with True a None show ?thesis by (blast intro: worker_step.store_pop)
    next
      case False
      with a None assms(3) show ?thesis by (auto simp: flags_inv_def intro: worker_step.store_stop)
    qed
  next
    case (Some x)
    obtain c d l where "store_sample no_fault x (p_ctx s) (p_db s) = (c, d, l)"
      by (cases "store_sample no_fault x (p_ctx s) (p_db s)") auto
    with a Some show ?thesis by (blast intro: worker_step.store_write)
  qed
  show ?thesis
  proof (cases "p_main s = 4")
    case True
    then show ?thesis using assms(4) collect process store by blast
  next
    case False
    then show ?thesis using main assms(3) by (simp add: flags_inv_def)
  qed
qed

inductive_cases worker_stepE: "worker_step th s s'"

lemma stopped_no_step:
  assumes "p_g_shutdown s" and "flags_inv s"
    and "\<not> p_collecting s" "\<not> p_processing s" "\<not> p_storing s" "p_main s = 4"
  shows "\<not> worker_step th s s'"
  using assms by (auto elim: worker_stepE simp: flags_inv_def)




text \<open>
  Property C14. The order of the shutdown: it is possible that it completes with a sample in the raw
  queue that was neither written nor counted as lost. The collector takes it, the signal comes,
  \<^verbatim>\<open>main\<close> sets \<^verbatim>\<open>proc_ctx.shutdown\<close> and the processor, seeing the flag before the queue, stops.
\<close>
theorem pipeline_shutdown_can_lose:
  "\<exists>s. pipe_reach th (pipe_start cfg d) s \<and> p_g_shutdown s \<and> (\<nexists>s'. worker_step th s s')
     \<and> p_collected s = [x] \<and> p_written s = [] \<and> p_lost s = 0 \<and> queue_list (p_raw s) = [x] \<and> p_db s = d"
proof -
  let ?s0 = "pipe_start cfg d"
  let ?q0 = "p_raw ?s0"
  have q0: "queue_inv ?q0" "queue_list ?q0 = []" "q_count ?q0 = 0" "\<not> q_shutdown ?q0" "q_capacity ?q0 = 64"
    using start_queue [OF refl] by (simp_all add: start_simps)
  obtain r q1 where push: "push_commit ?q0 x = (r, q1)" by fastforce
  have q1: "queue_list q1 = [x]"
    using sq.put_open [OF q0(1), of x] push q0 by (simp add: queue_put_eq)
  let ?s1 = "?s0\<lparr>p_chand := Some x, p_collected := [x]\<rparr>"
  let ?s2 = "?s1\<lparr>p_chand := None, p_raw := q1\<rparr>"
  let ?s3 = "?s2\<lparr>p_g_shutdown := True, p_collecting := False\<rparr>"
  let ?s4 = "?s3\<lparr>p_proc_shutdown := True, p_main := 1, p_processing := False\<rparr>"
  let ?s5 = "?s4\<lparr>p_store_shutdown := True, p_main := 2, p_storing := False\<rparr>"
  let ?s6 = "?s5\<lparr>p_raw := shutdown_queue q1, p_main := 3\<rparr>"
  let ?s7 = "?s6\<lparr>p_store := shutdown_queue (p_store ?s0), p_main := 4\<rparr>"
  note go = pipe_reach.worker [where th = th]
    have "pipe_reach th ?s0 ?s1"
    using go [OF pipe_reach.start worker_step.collect_take [of ?s0 th x]] by (simp add: start_simps)
  then have "pipe_reach th ?s0 ?s2"
    using go [OF _ worker_step.collect_push [of ?s1 x r q1 th]] push q0 by (simp add: costs_def start_simps)
  then have "pipe_reach th ?s0 (?s2\<lparr>p_g_shutdown := True\<rparr>)"
    using go [OF _ worker_step.signal [of ?s2 th]] by (simp add: start_simps)
  then have "pipe_reach th ?s0 ?s3"
    using go [OF _ worker_step.collect_stop [of "?s2\<lparr>p_g_shutdown := True\<rparr>" th]] by (simp add: start_simps)
  then have "pipe_reach th ?s0 (?s3\<lparr>p_proc_shutdown := True, p_main := 1\<rparr>)"
    using go [OF _ worker_step.main_proc [of ?s3 th]] by (simp add: start_simps)
  then have "pipe_reach th ?s0 ?s4"
    using go [OF _ worker_step.process_stop [of "?s3\<lparr>p_proc_shutdown := True, p_main := 1\<rparr>" th]] by (simp add: start_simps)
  then have "pipe_reach th ?s0 (?s4\<lparr>p_store_shutdown := True, p_main := 2\<rparr>)"
    using go [OF _ worker_step.main_store [of ?s4 th]] by (simp add: start_simps)
  then have "pipe_reach th ?s0 ?s5"
    using go [OF _ worker_step.store_stop [of "?s4\<lparr>p_store_shutdown := True, p_main := 2\<rparr>" th]] q0(3) by (simp add: start_simps)
  then have "pipe_reach th ?s0 ?s6"
    using go [OF _ worker_step.main_raw [of ?s5 th]] by (simp add: start_simps)
  then have "pipe_reach th ?s0 ?s7"
    using go [OF _ worker_step.main_queue [of ?s6 th]] by (simp add: start_simps)
  moreover have "flags_inv ?s7" by (simp add: flags_inv_def start_simps)
  then have "\<nexists>s'. worker_step th ?s7 s'"
    using stopped_no_step [of ?s7 th] by simp
  ultimately show ?thesis
    using q1 by (intro exI [of _ ?s7]) (simp add: start_simps)
qed


subsection \<open>The threads take these steps\<close>

lemma collect_refines:
  assumes "collect_iteration_step ctx it ok g = Some c"
    and "push_wait (ci_queue it) 100 (ci_wakeups it) = Some (p_raw s)"
    and "p_collecting s" and "p_chand s = Some (hd (co_pushed c))"
  shows "worker_step th s (s\<lparr>p_chand := None, p_raw := hd (co_queues c), p_lost := p_lost s + costs (p_raw s)\<rparr>)"
proof -
  let ?x = "hd (co_pushed c)"
  obtain r q where p: "push_commit (p_raw s) ?x = (r, q)" by fastforce
  have "hd (co_queues c) = q"
    using assms(1,2) p
    by (auto simp: collect_iteration_step_def collect_push_def sample_queue_push_def split: option.splits prod.splits)
  with worker_step.collect_push [OF assms(3,4) p] show ?thesis by simp
qed

lemma process_refines:
  assumes "processor_iteration dw ctx it l dev = Some r"
    and "pop_wait (it_raw it) 500 (it_raw_wakeups it) = Some (Inr q0)" and "0 < q_count q0"
  shows "pop_commit q0 = (Some (hd (pr_popped r)), hd (pr_raw r))"
    and "it_store it = Some sq \<Longrightarrow> push_wait sq 100 (it_store_wakeups it) = Some q1 \<Longrightarrow>
      \<exists>rc. push_commit q1 (mark_alarm (thresholds ctx) (hd (pr_popped r))) = (rc, hd (pr_store r))"
proof -
  obtain x q where p: "pop_commit q0 = (Some x, q)" using assms(3) by (simp add: pop_commit_def)
  then have pop: "sample_queue_pop (Some (it_raw it)) (Some zero_sample) 500 (it_raw_wakeups it) = Some (0, Some q, Some x)"
    using assms(2) by (simp add: sample_queue_pop_def)
  obtain l' dev' logs x' where b: "processor_sample dw ctx x l dev = (l', dev', logs, x')"
    by (cases "processor_sample dw ctx x l dev")
  have x': "x' = mark_alarm (thresholds ctx) x" by (rule processor_sample_parts(2) [OF b])
  show "pop_commit q0 = (Some (hd (pr_popped r)), hd (pr_raw r))"
    using assms(1) pop b p by (auto simp: processor_iteration_def split: option.splits prod.splits)
  show "it_store it = Some sq \<Longrightarrow> push_wait sq 100 (it_store_wakeups it) = Some q1 \<Longrightarrow>
      \<exists>rc. push_commit q1 (mark_alarm (thresholds ctx) (hd (pr_popped r))) = (rc, hd (pr_store r))"
    using assms(1) pop b x' by (auto simp: processor_iteration_def sample_queue_push_def split: prod.splits)
qed

lemma trim_cache_Some: "\<exists>rc d' logs. sqlite_store_trim_cache e (Some d) n = (rc, Some d', logs)"
  by (auto simp: sqlite_store_trim_cache_def Let_def split: prod.splits)

lemma store_refines:
  assumes "store_iteration_step it ctx db0 = Some (ctx', db', q', popped, logs)"
    and "pop_wait (si_queue it) 500 (si_wakeups it) = Some (Inr q0)" and "0 < q_count q0"
  shows "pop_commit q0 = (Some (hd popped), q')"
    and "p_storing s \<Longrightarrow> p_shand s = Some (hd popped) \<Longrightarrow> p_ctx s = ctx \<Longrightarrow> p_db s = si_others it db0 \<Longrightarrow>
      \<exists>s1 s2. worker_step th s s1 \<and> (s2 = s1 \<or> db_step s1 s2) \<and> p_ctx s2 = ctx' \<and> p_db s2 = db'"
proof -
  obtain x q where p: "pop_commit q0 = (Some x, q)" using assms(3) by (simp add: pop_commit_def)
  then have pop: "sample_queue_pop (Some (si_queue it)) (Some zero_sample) 500 (si_wakeups it) = Some (0, Some q, Some x)"
    using assms(2) by (simp add: sample_queue_pop_def)
  obtain c d ls where w: "store_sample (si_insert it) x ctx (si_others it db0) = (c, d, ls)"
    by (cases "store_sample (si_insert it) x ctx (si_others it db0)")
  obtain rc d' ls' where t: "sqlite_store_trim_cache (si_trim it) (Some d) (st_max_cache_count c) = (rc, Some d', ls')"
    using trim_cache_Some by blast
  have r: "popped = [x]" "q' = q" "ctx' = c" "db' = d \<or> db' = d'"
    using assms(1) pop w t by (auto simp: store_iteration_step_def Let_def split: if_splits)
  show "pop_commit q0 = (Some (hd popped), q')" using p r by simp
  assume s: "p_storing s" "p_shand s = Some (hd popped)" "p_ctx s = ctx" "p_db s = si_others it db0"
  obtain s1 where s1: "worker_step th s s1" "p_ctx s1 = c" "p_db s1 = d"
    using worker_step.store_write [OF s(1,2), of "si_insert it" c d ls] s(3,4) w r(1) by fastforce
  have "db_step s1 (s1\<lparr>p_db := d'\<rparr>)" using db_step.trim [of _ s1] t s1(3) by simp
  then show "\<exists>s1 s2. worker_step th s s1 \<and> (s2 = s1 \<or> db_step s1 s2) \<and> p_ctx s2 = ctx' \<and> p_db s2 = db'"
    using s1 r(3,4) by (cases "db' = d") (fastforce intro: exI [of _ "s1\<lparr>p_db := d'\<rparr>"])+
qed

lemma uploader_refines:
  assumes "up_db st = p_db s"
  shows "db_step s (s\<lparr>p_db := up_db (after_sent e i st)\<rparr>)" and "db_step s (s\<lparr>p_db := up_db (after_failed e i st)\<rparr>)"
proof -
  have "\<exists>rc d. sqlite_store_mark_uploaded e (Some (p_db s)) i = (rc, Some d)"
    "\<exists>rc d. sqlite_store_inc_retry e (Some (p_db s)) i = (rc, Some d)"
    by (simp_all add: sqlite_store_mark_uploaded_def sqlite_store_inc_retry_def split: option.split)
  then show "db_step s (s\<lparr>p_db := up_db (after_sent e i st)\<rparr>)" "db_step s (s\<lparr>p_db := up_db (after_failed e i st)\<rparr>)"
    using assms by (auto simp: after_sent_def after_failed_def intro: db_step.mark_sent db_step.count_retry)
qed




end
