(* ===== verification/End_To_End.thy ===== *)
theory End_To_End
  imports Gateway_Contexts
begin

section \<open>From the registers of the slave to the line at the server\<close>

text \<open>
  One measurement through all the parts it meets: decoded by the collector, flagged by the
  processor, inserted by the store thread, read back and formatted by the uploader, with the
  contexts \<^verbatim>\<open>main\<close> gives them. The specification is one function from the seven registers to the
  text of the line.
\<close>

text \<open>The alarm word of a measurement: the register of the slave with the flags of the gateway.\<close>
definition measured_alarm :: "u16 list \<Rightarrow> u32" where
  "measured_alarm r = ucast (r ! 5) OR alarm_bits (uint (r ! 0) < 650) (850 < uint (r ! 0))
     (500 < uint (r ! 2)) (2000 < uint (r ! 3)) (4500 < sint (r ! 1))"

definition measurement_line :: "string \<Rightarrow> int \<Rightarrow> u16 list \<Rightarrow> string" where
  "measurement_line device_id ms r =
     ''{'' @ json_key ''device_id'' @ quoted device_id @
     '','' @ json_key ''timestamp_ms'' @ fmt_int ms @
     '','' @ json_key ''ph'' @ fmt_scaled 2 (unat (r ! 0)) @
     '','' @ json_key ''temperature'' @ (if sint (r ! 1) < 0 then ''-'' else []) @ fmt_scaled 2 (nat \<bar>sint (r ! 1)\<bar>) @
     '','' @ json_key ''turbidity'' @ fmt_scaled 2 (unat (r ! 2)) @
     '','' @ json_key ''conductivity'' @ fmt_int (uint (r ! 3)) @
     '','' @ json_key ''sensor_status'' @ fmt_nat (unat (r ! 4)) @
     '','' @ json_key ''alarm_status'' @ fmt_nat (unat (measured_alarm r)) @
     '','' @ json_key ''sequence'' @ fmt_nat (unat (r ! 6)) @ ''}'' @ [CHR 0x0A]"

lemma ucast_u16_u32: "unat (ucast w :: u32) = unat w" for w :: u16
  using unsigned_less [of w, where ?'a = nat] by (simp add: unsigned_ucast_eq take_bit_nat_eq_self_iff)

lemma centi_pos: "0 < r \<Longrightarrow> 0 < centi r"
proof -
  assume "0 < r"
  then have "centi 1 \<le> centi r" by (intro centi_mono) simp
  moreover have "0 < centi 1" by (simp add: centi_def hundredth_def round_eval)
  ultimately show ?thesis by simp
qed

text \<open>The flagged sample: storable without loss, and with the text of the specification.\<close>
lemma measured_sample:
  assumes "sample_from_modbus_regs now (Some s0) (Some r) 7 = Some s"
    and "s' = mark_alarm (thresholds (main_proc_ctx afd)) s"
  shows "sample_ok s'" and "\<not> has_nan s'"
    and "\<not> neg_zero (ph s')" "\<not> neg_zero (temperature s')" "\<not> neg_zero (turbidity s')" "\<not> neg_zero (conductivity s')"
    and "timestamp_ms s' = sample_now_ms now" and "f32_to_int (conductivity s') = Some (uint (r ! 3))"
    and "json_line dev s' = Some (measurement_line dev (sample_now_ms now) r)"
proof -
  note f = sample_from_regs_fields [OF order_refl assms(1)]
  have alarm: "alarm_status s' = measured_alarm r"
    using alarm_of_registers [OF assms(1), of zero_threshold] f(6)
    by (simp add: assms(2) mark_alarm_def measured_alarm_def processor_threshold_default_def)
  have keep: "ph s' = ph s" "temperature s' = temperature s" "turbidity s' = turbidity s" "conductivity s' = conductivity s"
    "sensor_status s' = sensor_status s" "sequence s' = sequence s" "timestamp_ms s' = timestamp_ms s"
    by (simp_all add: assms(2) mark_alarm_def)
  show "sample_ok s'"
    using sample_ok_regs [of 7 now s0 r] assms(1) by (simp add: sample_ok_def keep)
  show "\<not> has_nan s'" by (simp add: has_nan_def keep f)
  show "\<not> neg_zero (ph s')" "\<not> neg_zero (temperature s')" "\<not> neg_zero (turbidity s')" "\<not> neg_zero (conductivity s')"
    using centi_pos by (auto simp: keep f)
  show t: "timestamp_ms s' = sample_now_ms now" by (simp add: keep f)
  have b: "unat w < 65536" for w :: u16 using unsigned_less [of w, where ?'a = nat] by simp
  have c: "nat \<bar>sint w\<bar> < 65536" for w :: u16 using sint_u16_bound [of w] by simp
  have i: "is_c_int (uint w)" for w :: u16
    using uint_u16_bound [of w] order_trans [OF _ uint_ge_0, of INT_MIN w] by (simp add: is_c_int_def)
  show cond: "f32_to_int (conductivity s') = Some (uint (r ! 3))"
    unfolding keep f by (simp add: i Let_def)
  have texts: "fmt_fixed 2 (ph s') = fmt_scaled 2 (unat (r ! 0))"
    "fmt_fixed 2 (turbidity s') = fmt_scaled 2 (unat (r ! 2))"
    "fmt_fixed 2 (temperature s') = (if sint (r ! 1) < 0 then ''-'' else []) @ fmt_scaled 2 (nat \<bar>sint (r ! 1)\<bar>)"
    unfolding keep f by (simp_all only: fmt_fixed_centi [OF b] fmt_fixed_centi [OF c] if_False append_Nil)
  show "json_line dev s' = Some (measurement_line dev (sample_now_ms now) r)"
    unfolding json_line_def cond option.case texts t alarm measurement_line_def
    by (simp only: keep f ucast_u16_u32 append_assoc)
qed

text \<open>
  Property C7. From the registers to the server, with the contexts of \<^verbatim>\<open>main\<close> and any
  configuration that loads: the measurement is flagged with the alarms of its registers, its row is
  inserted, and what the uploader later reads from that row gives, within its buffer, exactly
  the line that states the registers in hundredths, the status words, the alarm flags and the
  sequence number: no digit is lost in the floats, the database columns or the buffer.
\<close>
theorem registers_to_json:
  assumes "config_valid cfg" and "sample_from_modbus_regs now (Some s0) (Some r) 7 = Some s"
    and "is_int64 (sample_now_ms now)" and "db_table d = Some t"
    and "store_sample no_fault (mark_alarm (thresholds (main_proc_ctx afd)) s) (main_store_ctx cfg) d = (ctx', d', logs)"
  shows "\<exists>t' s'. db_table d' = Some t' \<and> length (t_rows t') = length (t_rows t) + 1
    \<and> uploader_read_row True [last (t_rows t')] = (1, Some (column_int (t_seq t + 1), s'), [])
    \<and> uploader_build_json (up_device_id (main_upload_ctx cfg)) s' 512 =
        Some (measurement_line (cfg_device_id cfg) (sample_now_ms now) r,
              int (length (measurement_line (cfg_device_id cfg) (sample_now_ms now) r)))
    \<and> length (measurement_line (cfg_device_id cfg) (sample_now_ms now) r) < 512"
proof -
  let ?s = "mark_alarm (thresholds (main_proc_ctx afd)) s" and ?dev = "cfg_device_id cfg"
  note m = measured_sample [OF assms(2) refl, where afd = afd]
  let ?t = "t\<lparr>t_rows := t_rows t @ [row_for (t_seq t + 1) ?dev ?s], t_seq := t_seq t + 1\<rparr>"
  have d': "db_table d' = Some ?t"
    using assms(5) store_sample_works [OF _ assms(4) m(2), of no_fault "main_store_ctx cfg"]
    by (auto simp: no_fault_def main_store_ctx_def)
  have row: "row_sample (row_for (t_seq t + 1) ?dev ?s) = ?s"
    by (rule row_sample_row_for [OF m(1-6)])
  have read: "uploader_read_row True [last (t_rows ?t)] = (1, Some (column_int (t_seq t + 1), ?s), [])"
    using row by (simp add: uploader_read_row_def) (simp add: row_for_def)
  have dev: "length ?dev < 64" using assms(1) by (simp add: config_valid_def config_fits_def text_fits_def)
  have "sample_sendable ?s" using m(1,7,8) assms(3) by (simp add: sample_sendable_def)
  from build_json_fits [OF dev this] m(9) [of ?dev]
  have "uploader_build_json ?dev ?s 512 = Some (measurement_line ?dev (sample_now_ms now) r,
      int (length (measurement_line ?dev (sample_now_ms now) r)))
    \<and> length (measurement_line ?dev (sample_now_ms now) r) < 512" by auto
  with d' read show ?thesis by (auto simp: main_upload_ctx_def)
qed

theorem registers_to_json_witness:
  "\<exists>(t' :: table) s'. length (t_rows t') = 1 \<and> uploader_read_row True [last (t_rows t')] = (1, Some (1, s'), [])
    \<and> map_option fst (uploader_build_json (cfg_device_id test_config) s' 512) =
        Some (measurement_line (cfg_device_id test_config) 1500 [649, 65036, 501, 820, 0, 0, 1280])"
proof -
  let ?r = "[649, 65036, 501, 820, 0, 0, 1280] :: u16 list"
  let ?d = "\<lparr>db_table = Some empty_table, db_indexes = [], db_pragmas = []\<rparr>"
  have now: "sample_now_ms (1, 500000) = 1500" by (simp add: sample_now_ms_def c_div_def)
  obtain s where s: "sample_from_modbus_regs (1, 500000) (Some zero_sample) (Some ?r) 7 = Some s"
    using sample_ok_regs [of 7 "(1, 500000)" zero_sample ?r] by auto
  obtain ctx' d' logs where w: "store_sample no_fault (mark_alarm (thresholds (main_proc_ctx (-1))) s)
      (main_store_ctx test_config) ?d = (ctx', d', logs)"
    by (cases "store_sample no_fault (mark_alarm (thresholds (main_proc_ctx (-1))) s) (main_store_ctx test_config) ?d") auto
  have i: "is_int64 (sample_now_ms (1, 500000))" by (simp add: now is_int64_def)
  have t: "db_table ?d = Some empty_table" by simp
  obtain t' :: table and s' where e: "length (t_rows t') = length (t_rows empty_table) + 1
      \<and> uploader_read_row True [last (t_rows t')] = (1, Some (column_int (t_seq empty_table + 1), s'), [])
      \<and> uploader_build_json (up_device_id (main_upload_ctx test_config)) s' 512
        = Some (measurement_line (cfg_device_id test_config) 1500 ?r, int (length (measurement_line (cfg_device_id test_config) 1500 ?r)))"
    using registers_to_json [OF test_config_valid s i t w, unfolded now] by blast
  have "t_rows empty_table = []" "column_int (t_seq empty_table + 1) = 1"
    by (simp_all add: empty_table_def column_int_def)
  then show ?thesis using e by (auto simp: main_upload_ctx_def)
qed

end
